theory Spec2Isabelle
  imports Complex_Main "HOL-Library.Word"
begin

section \<open>Status values and aborted calls\<close>

text \<open>
  \<^verbatim>\<open>Status\<close> carries a return code and a message; \<^verbatim>\<open>Status()\<close> is the success value
  and \<^verbatim>\<open>OK()\<close> tests for it. The class itself lives in \<^verbatim>\<open>utils/status.h\<close>; only the
  constructors used by the modelled functions appear here.
\<close>

datatype RetCode =
    RET_SUCCESS
  | RET_EXCEED_CAPACITY
  | RET_EXCEED_LENGTH
  | RET_OUT_OF_MEMORY
  | RET_INVALID_ARGUMENT

datatype Status = Status RetCode string

definition Status_default :: Status where
  "Status_default = Status RET_SUCCESS []"

fun GetCode :: "Status \<Rightarrow> RetCode" where
  "GetCode (Status c m) = c"

definition OK :: "Status \<Rightarrow> bool" where
  "OK s = (GetCode s = RET_SUCCESS)"

text \<open>
  Ways in which a call ends without returning a \<^verbatim>\<open>Status\<close>:
  a failed \<^verbatim>\<open>NLLM_CHECK_WITH_INFO\<close> (with its message), a thrown
  \<^verbatim>\<open>std::runtime_error\<close>, \<^verbatim>\<open>std::exit\<close>, the \<^verbatim>\<open>std::out_of_range\<close> of
  \<^verbatim>\<open>vector::at\<close>, an integer division by zero, and an index outside a vector
  read with \<^verbatim>\<open>operator[]\<close>.
\<close>

datatype abort =
    CheckFailed string
  | RuntimeError string
  | ExitProcess int
  | OutOfRange
  | DivisionByZero
  | BadIndex

section \<open>Requests and the batch state\<close>

datatype InferStage = STAGE_CONTEXT | STAGE_DECODE

text \<open>
  Modelled from the spec: the classes \<^verbatim>\<open>Request\<close> and \<^verbatim>\<open>InferRequest\<close> are not among
  the sources. The record holds the fields that the specification lists for a request
  and that the modelled functions touch. \<^verbatim>\<open>InferRequest(req)\<close> takes over the client's
  fields, so the record extends \<^verbatim>\<open>Request\<close>. A model instance is a shared pointer:
  \<open>None\<close> is the null pointer.
\<close>

record Request =
  req_id :: int
  model_name :: string
  input_tokens :: "int list"

record InferRequest = Request +
  kv_cache_blocks :: "nat list list"
  req_block_size :: nat
  model_instance :: "nat option"
  infer_stage :: InferStage
  step :: nat
  finished :: bool
  finish_status :: Status

record BatchSchedulerConfig =
  max_waiting_queue_len :: nat
  max_token_len :: nat
  max_step_tokens :: nat
  max_batch_size :: nat

record BatchState =
  waiting_buffer_queue :: "InferRequest list"
  waiting_queue :: "InferRequest list"
  running_queue :: "InferRequest list"
  swapped_queue :: "InferRequest list"

text \<open>
  The requests of a group are shared objects that \<^verbatim>\<open>AddInferRequest\<close> mutates through
  their pointers. The model keeps the group as a vector of records, addressed by
  position, and logs every write and every \<^verbatim>\<open>Notify()\<close> in program order, with the
  position of the request through which it is made.
\<close>

datatype event =
    SetFinishStatus nat Status
  | SetFinished nat
  | Notify nat
  | PushWaitingBuffer nat

text \<open>
  Modelled from the spec: the requests of one group answer one client request. They
  share its finish status and its waiter; \<open>waiter_notified\<close> counts the notifications
  that this waiter receives during the call.
\<close>

record sched_world =
  infer_request_group :: "InferRequest list"
  batch_state :: BatchState
  waiter_notified :: nat
  events :: "event list"

text \<open>
  Modelled from the spec: \<^verbatim>\<open>finish_status\<close> is the status shared by the group, so the
  assignment made through the request at position \<open>i\<close> shows in every request of the
  group.
\<close>

definition set_finish_status :: "nat \<Rightarrow> Status \<Rightarrow> sched_world \<Rightarrow> sched_world" where
  "set_finish_status i s w =
     w\<lparr>infer_request_group := map (\<lambda>r. r\<lparr>finish_status := s\<rparr>) (infer_request_group w),
       events := events w @ [SetFinishStatus i s]\<rparr>"

definition set_finished :: "nat \<Rightarrow> sched_world \<Rightarrow> sched_world" where
  "set_finished i w =
     w\<lparr>infer_request_group := (infer_request_group w)[i := (infer_request_group w ! i)\<lparr>finished := True\<rparr>],
       events := events w @ [SetFinished i]\<rparr>"

text \<open>
  Modelled from the spec: \<^verbatim>\<open>Notify()\<close>, called through the request at position \<open>i\<close>,
  notifies the waiter of the group once.
\<close>

definition notify :: "nat \<Rightarrow> sched_world \<Rightarrow> sched_world" where
  "notify i w =
     w\<lparr>waiter_notified := waiter_notified w + 1, events := events w @ [Notify i]\<rparr>"

definition push_waiting_buffer :: "nat \<Rightarrow> sched_world \<Rightarrow> sched_world" where
  "push_waiting_buffer i w =
     w\<lparr>batch_state := (batch_state w)
          \<lparr>waiting_buffer_queue := waiting_buffer_queue (batch_state w) @ [infer_request_group w ! i]\<rparr>,
       events := events w @ [PushWaitingBuffer i]\<rparr>"

section \<open>Batch scheduler\<close>

text \<open>
  \<^verbatim>\<open>BatchScheduler::BatchScheduler\<close>: the configuration check, then the empty batch
  state. The check macro aborts construction with the formatted message; the model
  keeps the format string.
\<close>

definition empty_batch_state :: BatchState where
  "empty_batch_state =
     \<lparr>waiting_buffer_queue = [], waiting_queue = [], running_queue = [], swapped_queue = []\<rparr>"

definition BatchScheduler_init :: "BatchSchedulerConfig \<Rightarrow> abort + BatchState" where
  "BatchScheduler_init cfg =
     (if max_step_tokens cfg > max_token_len cfg then Inr empty_batch_state
      else Inl (CheckFailed ''The max_step_tokens must large than max_token_len, %d vs %d.''))"

text \<open>
  \<^verbatim>\<open>CheckWaitingQueueFull(num)\<close> and \<^verbatim>\<open>CheckRequestExceedLength(req)\<close>. The sizes are
  \<^verbatim>\<open>size_t\<close> values of vectors held in memory, far from the 64-bit wrap-around, so
  they are natural numbers here.
\<close>

definition CheckWaitingQueueFull :: "BatchSchedulerConfig \<Rightarrow> BatchState \<Rightarrow> nat \<Rightarrow> bool" where
  "CheckWaitingQueueFull cfg bs num =
     (length (waiting_queue bs) + num \<ge> max_waiting_queue_len cfg)"

definition CheckRequestExceedLength :: "BatchSchedulerConfig \<Rightarrow> InferRequest \<Rightarrow> bool" where
  "CheckRequestExceedLength cfg req = (length (input_tokens req) > max_token_len cfg)"

text \<open>
  The rejection sequence shared by both gates: the status is stored through the first
  request of the group, the range-for loop sets \<^verbatim>\<open>finished\<close> on each request, then
  \<^verbatim>\<open>Notify()\<close> is called on the first request and its status is returned.
\<close>

definition reject_group :: "Status \<Rightarrow> sched_world \<Rightarrow> Status \<times> sched_world" where
  "reject_group s w0 =
     (let w1 = set_finish_status 0 s w0;
          w2 = fold set_finished [0..<length (infer_request_group w1)] w1;
          w3 = notify 0 w2
      in (finish_status (infer_request_group w3 ! 0), w3))"

text \<open>
  \<^verbatim>\<open>AddInferRequest(infer_request_group)\<close>. Reading element 0 of an empty group is
  undefined behaviour in the source: the model returns \<open>None\<close> there.
\<close>

definition AddInferRequest ::
  "BatchSchedulerConfig \<Rightarrow> BatchState \<Rightarrow> InferRequest list \<Rightarrow> (Status \<times> sched_world) option" where
  "AddInferRequest cfg bs grp =
     (if grp = [] then None
      else
        let w0 = \<lparr>infer_request_group = grp, batch_state = bs, waiter_notified = 0, events = []\<rparr> in
        if CheckWaitingQueueFull cfg bs (length grp) then
          Some (reject_group (Status RET_EXCEED_CAPACITY ''waiting queue is full.'') w0)
        else if CheckRequestExceedLength cfg (grp ! 0) then
          Some (reject_group (Status RET_EXCEED_LENGTH ''input length exceed max_token_len.'') w0)
        else
          Some (Status_default, fold push_waiting_buffer [0..<length grp] w0))"

section \<open>Batch manager\<close>

text \<open>
  The part of the manager that \<^verbatim>\<open>Enqueue\<close> reads and writes: the scheduler with its
  state, the registered model instances (\<^verbatim>\<open>operator[]\<close> of the map inserts a null
  pointer for an unknown name), the tensor-parallel size of the context, the block
  size of the block manager, and the number of \<^verbatim>\<open>Notify()\<close> calls received by
  \<^verbatim>\<open>queue_waiter_\<close>.
\<close>

record BatchManager =
  scheduler_config :: BatchSchedulerConfig
  scheduler_state :: BatchState
  model_instances :: "string \<rightharpoonup> nat option"
  tensor_parallel_size :: nat
  manager_block_size :: nat
  queue_waiter_notified :: nat

definition lookup_model_instance ::
  "(string \<rightharpoonup> nat option) \<Rightarrow> string \<Rightarrow> nat option \<times> (string \<rightharpoonup> nat option)" where
  "lookup_model_instance m name =
     (case m name of Some p \<Rightarrow> (p, m) | None \<Rightarrow> (None, m(name \<mapsto> None)))"

definition make_infer_request :: "Request \<Rightarrow> InferRequest" where
  "make_infer_request req =
     \<lparr>req_id = req_id req, model_name = model_name req, input_tokens = input_tokens req,
      kv_cache_blocks = [], req_block_size = 0, model_instance = None,
      infer_stage = STAGE_CONTEXT, step = 0, finished = False,
      finish_status = Status_default\<rparr>"

record enqueue_result =
  returned :: Status
  scheduler_returned :: Status
  manager :: BatchManager
  infer_req :: InferRequest
  req_events :: "event list"

text \<open>
  \<^verbatim>\<open>BatchManager::Enqueue(req)\<close>. The scheduler is handed the one new request, a
  group of size one; its status goes to \<^verbatim>\<open>enqueue_status\<close>, which is only logged.
  The request starts unfinished with the success status, in the context stage.
\<close>

definition Enqueue :: "BatchManager \<Rightarrow> Request \<Rightarrow> enqueue_result option" where
  "Enqueue bm req =
     (let r0 = make_infer_request req;
          r1 = r0\<lparr>kv_cache_blocks := replicate (tensor_parallel_size bm) [],
                  req_block_size := manager_block_size bm\<rparr>;
          (inst, insts) = lookup_model_instance (model_instances bm) (model_name req);
          r2 = r1\<lparr>model_instance := inst, infer_stage := STAGE_CONTEXT, step := 0\<rparr>
      in case AddInferRequest (scheduler_config bm) (scheduler_state bm) [r2] of
           None \<Rightarrow> None
         | Some (enqueue_status, w) \<Rightarrow>
             Some \<lparr>returned = Status_default,
                   scheduler_returned = enqueue_status,
                   manager = bm\<lparr>scheduler_state := batch_state w,
                                model_instances := insts,
                                queue_waiter_notified := queue_waiter_notified bm + 1\<rparr>,
                   infer_req = infer_request_group w ! 0,
                   req_events = events w\<rparr>)"

section \<open>Example inputs\<close>

definition tokens_request :: "int list \<Rightarrow> InferRequest" where
  "tokens_request ts =
     make_infer_request \<lparr>req_id = 1, model_name = ''llama'', input_tokens = ts\<rparr>"

definition queue_state :: "InferRequest list \<Rightarrow> BatchState" where
  "queue_state q = empty_batch_state\<lparr>waiting_queue := q\<rparr>"

definition small_config :: BatchSchedulerConfig where
  "small_config =
     \<lparr>max_waiting_queue_len = 3, max_token_len = 4, max_step_tokens = 16, max_batch_size = 8\<rparr>"

definition small_manager :: BatchManager where
  "small_manager =
     \<lparr>scheduler_config = small_config, scheduler_state = empty_batch_state,
      model_instances = Map.empty, tensor_parallel_size = 2, manager_block_size = 1024,
      queue_waiter_notified = 0\<rparr>"

definition long_request :: Request where
  "long_request = \<lparr>req_id = 5, model_name = ''llama'', input_tokens = [1, 2, 3, 4, 5]\<rparr>"

section \<open>Step driver: marshalling a batch\<close>

text \<open>
  A forward request carries a pointer to the request's \<^verbatim>\<open>output_tokens\<close> and, per rank,
  the base addresses of its KV blocks. Addresses are natural numbers; adding a byte
  offset to a \<^verbatim>\<open>void*\<close> is addition.
\<close>

record ForwardRequest =
  output_tokens :: "int list"
  kv_cache_ptrs :: "nat list list"

text \<open>
  The fields of the model object read while marshalling: \<^verbatim>\<open>num_layer_\<close>, \<^verbatim>\<open>rank_\<close>,
  \<^verbatim>\<open>block_size_\<close> and \<^verbatim>\<open>max_batch_size_\<close>.
\<close>

record Llama =
  num_layer :: nat
  rank :: nat
  llama_block_size :: nat
  llama_max_batch_size :: nat

text \<open>
  The first loop of both \<^verbatim>\<open>ContextDecode\<close> and \<^verbatim>\<open>Decode\<close>: it sums the token counts
  and the block counts and collects the running block total. Indexing
  \<^verbatim>\<open>kv_cache_ptrs\<close> with a rank it does not have is undefined in the source and ends
  the model with \<open>BadIndex\<close>.
\<close>

fun count_loop ::
  "nat \<Rightarrow> ForwardRequest list \<Rightarrow> nat \<times> nat \<times> nat list \<Rightarrow> abort + (nat \<times> nat \<times> nat list)" where
  "count_loop rk [] acc = Inr acc"
| "count_loop rk (r # rs) (total_seq_len, total_block_num, kv_cache_offset_list) =
     (if rk < length (kv_cache_ptrs r) then
        count_loop rk rs
          (total_seq_len + length (output_tokens r),
           total_block_num + length (kv_cache_ptrs r ! rk),
           kv_cache_offset_list @ [total_block_num + length (kv_cache_ptrs r ! rk)])
      else Inl BadIndex)"

text \<open>
  \<^verbatim>\<open>ContextDecode\<close>, the loop that fills \<^verbatim>\<open>input_ids_cpu\<close>: every token of every
  request is inserted at the end.
\<close>

fun context_input_ids_loop :: "ForwardRequest list \<Rightarrow> int list \<Rightarrow> int list" where
  "context_input_ids_loop [] input_ids_cpu = input_ids_cpu"
| "context_input_ids_loop (r # rs) input_ids_cpu =
     context_input_ids_loop rs (input_ids_cpu @ output_tokens r)"

text \<open>
  \<^verbatim>\<open>vector::at\<close> throws outside the vector. The index \<^verbatim>\<open>length - 1\<close> is computed in
  \<^verbatim>\<open>size_t\<close>, so for an empty vector it wraps to the largest 64-bit value (no vector is
  that long, so the index is outside every vector).
\<close>

definition vector_at :: "'a list \<Rightarrow> nat \<Rightarrow> abort + 'a" where
  "vector_at xs i = (if i < length xs then Inr (xs ! i) else Inl OutOfRange)"

definition size_minus_one :: "nat \<Rightarrow> nat" where
  "size_minus_one n = (if n = 0 then 2 ^ 64 - 1 else n - 1)"

text \<open>
  \<^verbatim>\<open>Decode\<close>, the loop that fills \<^verbatim>\<open>input_ids_cpu\<close>: slot \<^verbatim>\<open>idx\<close> receives the last
  token of request \<^verbatim>\<open>idx\<close>.
\<close>

fun decode_input_ids_loop :: "nat \<Rightarrow> ForwardRequest list \<Rightarrow> int list \<Rightarrow> abort + int list" where
  "decode_input_ids_loop idx [] input_ids_cpu = Inr input_ids_cpu"
| "decode_input_ids_loop idx (r # rs) input_ids_cpu =
     (case vector_at (output_tokens r) (size_minus_one (length (output_tokens r))) of
        Inl e \<Rightarrow> Inl e
      | Inr tok \<Rightarrow> decode_input_ids_loop (idx + 1) rs (input_ids_cpu[idx := tok]))"

text \<open>
  The KV list. For one request the inner loop writes one pointer per block at
  \<^verbatim>\<open>layer_idx * total_block_num * 2 + kv_list_index\<close> and advances the index; \<open>base\<close>
  is \<^verbatim>\<open>layer_idx * total_block_num * 2\<close> and \<open>off\<close> the byte offset added to the block
  address.
\<close>

fun fill_request :: "nat \<Rightarrow> nat \<Rightarrow> nat list \<Rightarrow> nat list \<times> nat \<Rightarrow> nat list \<times> nat" where
  "fill_request base off [] (cpu_kv_list, kv_list_index) = (cpu_kv_list, kv_list_index)"
| "fill_request base off (kv_cache_ptr # ptrs) (cpu_kv_list, kv_list_index) =
     fill_request base off ptrs
       (cpu_kv_list[base + kv_list_index := kv_cache_ptr + off], kv_list_index + 1)"

fun fill_batch :: "nat \<Rightarrow> nat \<Rightarrow> nat list list \<Rightarrow> nat list \<times> nat \<Rightarrow> nat list \<times> nat" where
  "fill_batch base off [] st = st"
| "fill_batch base off (ptrs # rest) st = fill_batch base off rest (fill_request base off ptrs st)"

text \<open>
  One round of the layer loop: \<^verbatim>\<open>kv_list_index\<close> starts at 0, the K pass adds
  \<^verbatim>\<open>layer_idx * block_size_ / num_layer_\<close>, the V pass adds
  \<^verbatim>\<open>layer_idx * block_size_ / num_layer_ + block_size_ / num_layer_ / 2\<close>. In C++ the
  product is formed first and then divided.
\<close>

definition kv_layer :: "nat \<Rightarrow> nat \<Rightarrow> nat \<Rightarrow> nat list list \<Rightarrow> nat \<Rightarrow> nat list \<Rightarrow> nat list" where
  "kv_layer nl bs total_block_num ptrss layer_idx cpu_kv_list =
     (let base = layer_idx * total_block_num * 2;
          after_k = fill_batch base (layer_idx * bs div nl) ptrss (cpu_kv_list, 0);
          after_v = fill_batch base (layer_idx * bs div nl + bs div nl div 2) ptrss after_k
      in fst after_v)"

definition build_kv_list :: "nat \<Rightarrow> nat \<Rightarrow> nat \<Rightarrow> nat list list \<Rightarrow> nat list" where
  "build_kv_list nl bs total_block_num ptrss =
     fold (kv_layer nl bs total_block_num ptrss) [0..<nl]
          (replicate (nl * total_block_num * 2) 0)"

text \<open>The host-side tables handed to the device by the marshalling part of a step.\<close>

record model_input =
  input_ids_shape :: nat
  input_ids :: "int list"
  kv_cache_offset_list :: "nat list"
  kv_list_shape :: "nat \<times> nat"
  kv_list :: "nat list"

text \<open>
  \<^verbatim>\<open>ContextDecode\<close> and \<^verbatim>\<open>Decode\<close> up to the upload of \<^verbatim>\<open>kv_list\<close>. A batch larger than
  \<^verbatim>\<open>max_batch_size_\<close> ends the process with \<^verbatim>\<open>std::exit(-1)\<close>. The input-offset tables,
  \<^verbatim>\<open>max_tokens\<close> and the rotary positions, which the same loops also fill, do not
  influence \<^verbatim>\<open>input_ids\<close> or \<^verbatim>\<open>kv_list\<close> and are left out. Each upload copies the
  whole host vector, so the tensor holds what the host vector holds.
\<close>

definition ContextDecode :: "Llama \<Rightarrow> ForwardRequest list \<Rightarrow> abort + model_input" where
  "ContextDecode m forward_reqs =
     (if length forward_reqs > llama_max_batch_size m then Inl (ExitProcess (- 1))
      else
        case count_loop (rank m) forward_reqs (0, 0, [0]) of
          Inl e \<Rightarrow> Inl e
        | Inr (total_seq_len, total_block_num, offsets) \<Rightarrow>
            Inr \<lparr>input_ids_shape = total_seq_len,
                 input_ids = context_input_ids_loop forward_reqs [],
                 kv_cache_offset_list = offsets,
                 kv_list_shape = (num_layer m, total_block_num * 2),
                 kv_list = build_kv_list (num_layer m) (llama_block_size m) total_block_num
                             (map (\<lambda>r. kv_cache_ptrs r ! rank m) forward_reqs)\<rparr>)"

definition Decode :: "Llama \<Rightarrow> ForwardRequest list \<Rightarrow> abort + model_input" where
  "Decode m forward_reqs =
     (if length forward_reqs > llama_max_batch_size m then Inl (ExitProcess (- 1))
      else
        case count_loop (rank m) forward_reqs (0, 0, [0]) of
          Inl e \<Rightarrow> Inl e
        | Inr (total_seq_len, total_block_num, offsets) \<Rightarrow>
            (case decode_input_ids_loop 0 forward_reqs (replicate (length forward_reqs) 0) of
               Inl e \<Rightarrow> Inl e
             | Inr input_ids_cpu \<Rightarrow>
                 Inr \<lparr>input_ids_shape = length forward_reqs,
                      input_ids = input_ids_cpu,
                      kv_cache_offset_list = offsets,
                      kv_list_shape = (num_layer m, total_block_num * 2),
                      kv_list = build_kv_list (num_layer m) (llama_block_size m) total_block_num
                                  (map (\<lambda>r. kv_cache_ptrs r ! rank m) forward_reqs)\<rparr>))"

text \<open>The layout of \<^verbatim>\<open>kv_list\<close> written as a value: per layer, the K row then the V row.\<close>

definition kv_layer_rows :: "nat \<Rightarrow> nat \<Rightarrow> nat list \<Rightarrow> nat \<Rightarrow> nat list" where
  "kv_layer_rows nl bs ptrs layer_idx =
     map (\<lambda>p. p + layer_idx * bs div nl) ptrs @
     map (\<lambda>p. p + (layer_idx * bs div nl + bs div nl div 2)) ptrs"

definition kv_list_layout :: "nat \<Rightarrow> nat \<Rightarrow> nat list \<Rightarrow> nat list" where
  "kv_list_layout nl bs ptrs = concat (map (kv_layer_rows nl bs ptrs) [0..<nl])"

text \<open>
  The layout as the specification words it, with the per-layer size
  \<^verbatim>\<open>block_size / num_layer\<close> formed first: K pointers at
  \<^verbatim>\<open>block_ptr + L * (block_size / num_layer)\<close>, V pointers half a layer further.
\<close>

definition kv_list_as_specified :: "nat \<Rightarrow> nat \<Rightarrow> nat list \<Rightarrow> nat list" where
  "kv_list_as_specified nl bs ptrs =
     concat (map (\<lambda>L. map (\<lambda>p. p + L * (bs div nl)) ptrs @
                       map (\<lambda>p. p + L * (bs div nl) + (bs div nl) div 2) ptrs) [0..<nl])"

text \<open>Example inputs for the step driver.\<close>

definition two_layer_llama :: Llama where
  "two_layer_llama = \<lparr>num_layer = 2, rank = 0, llama_block_size = 1024, llama_max_batch_size = 8\<rparr>"

definition forward_request :: "int list \<Rightarrow> nat list \<Rightarrow> ForwardRequest" where
  "forward_request toks ptrs = \<lparr>output_tokens = toks, kv_cache_ptrs = [ptrs]\<rparr>"

section \<open>Block manager: capacity sizing\<close>

text \<open>
  \<^verbatim>\<open>size_t\<close> is a 64-bit word: subtraction and multiplication wrap around, comparison
  is unsigned.
\<close>

type_synonym size_t = "64 word"

text \<open>
  The ratios of the configuration are floating-point numbers. The floating-point
  operations that \<^verbatim>\<open>CalculateBlockNumber\<close> applies are a parameter of the model:
  conversion of a \<^verbatim>\<open>size_t\<close> to floating point and back, product, quotient, sum, the
  two comparisons and the literals \<^verbatim>\<open>0.0\<close> and \<^verbatim>\<open>1.0\<close>. What is proved for every
  such record of operations holds for the machine's arithmetic too.
\<close>

record 'f float_ops =
  of_size :: "size_t \<Rightarrow> 'f"
  to_size :: "'f \<Rightarrow> size_t"
  fmul :: "'f \<Rightarrow> 'f \<Rightarrow> 'f"
  fdiv :: "'f \<Rightarrow> 'f \<Rightarrow> 'f"
  fadd :: "'f \<Rightarrow> 'f \<Rightarrow> 'f"
  fless :: "'f \<Rightarrow> 'f \<Rightarrow> bool"
  fle :: "'f \<Rightarrow> 'f \<Rightarrow> bool"
  fzero :: 'f
  fone :: 'f

text \<open>
  Exact arithmetic on rationals, truncating on the way back to \<^verbatim>\<open>size_t\<close>. On dyadic
  ratios and sizes well below 2 to the 53 the machine's doubles compute the same
  values, so concrete runs are evaluated with it.
\<close>

definition exact_ops :: "rat float_ops" where
  "exact_ops =
     \<lparr>of_size = (\<lambda>w. of_nat (unat w)),
      to_size = (\<lambda>r. word_of_int \<lfloor>r\<rfloor>),
      fmul = (\<lambda>a b. a * b),
      fdiv = (\<lambda>a b. a / b),
      fadd = (\<lambda>a b. a + b),
      fless = (\<lambda>a b. a < b),
      fle = (\<lambda>a b. a \<le> b),
      fzero = 0,
      fone = 1\<rparr>"

record AllocatorConfig =
  blocks_num :: size_t
  block_size :: size_t
  block_token_num :: size_t

record 'f BlockManagerConfig =
  host_allocator_config :: AllocatorConfig
  device_allocator_config :: AllocatorConfig
  reserved_device_memory_ratio :: 'f
  block_device_memory_ratio :: 'f
  lora_host_memory_factor :: 'f
  block_host_memory_factor :: 'f

text \<open>
  How a call of \<^verbatim>\<open>CalculateBlockNumber\<close> ends: a failed check or a division by zero
  ends it without a status, a failed memory query returns that query's status, and
  otherwise the two block numbers are written and the success status returned. The
  failed check with the message \<^verbatim>\<open>Not enough host free memory\<close> is the error the
  specification calls \<^verbatim>\<open>INSUFFICIENT_HOST_MEMORY\<close>.
\<close>

datatype calc_outcome =
    Aborted abort
  | StatusError Status
  | BlockNumbers size_t size_t

text \<open>
  The bytes set aside for device blocks, as the two branches of the source compute
  them; \<^verbatim>\<open>alignment_bytes\<close> is 8.
\<close>

definition device_block_memory_size ::
  "'f float_ops \<Rightarrow> 'f BlockManagerConfig \<Rightarrow> size_t \<Rightarrow> size_t \<Rightarrow> size_t" where
  "device_block_memory_size F cfg device_free device_total =
     (let alignment_bytes = 8 :: size_t in
      if fle F (fzero F) (block_device_memory_ratio cfg) then
        to_size F (fdiv F (fmul F (of_size F device_total) (block_device_memory_ratio cfg))
                          (of_size F alignment_bytes))
      else
        let reserved_memory_size =
              to_size F (fmul F (fadd F (fdiv F (fmul F (of_size F device_total)
                                                        (reserved_device_memory_ratio cfg))
                                                (of_size F alignment_bytes))
                                        (fone F))
                                (of_size F alignment_bytes))
        in ((device_free - reserved_memory_size) div alignment_bytes + 1) * alignment_bytes)"

text \<open>
  \<^verbatim>\<open>CalculateBlockNumber\<close>. The memory queries \<^verbatim>\<open>GetDeviceMemoryInfo\<close> and
  \<^verbatim>\<open>GetHostMemoryInfo\<close> are inputs: a failing status, or the pair (free, total).
\<close>

definition CalculateBlockNumber ::
  "'f float_ops \<Rightarrow> 'f BlockManagerConfig \<Rightarrow> Status + size_t \<times> size_t \<Rightarrow>
   Status + size_t \<times> size_t \<Rightarrow> calc_outcome" where
  "CalculateBlockNumber F cfg device_info host_info =
     (case device_info of
        Inl status \<Rightarrow> StatusError status
      | Inr (device_free, device_total) \<Rightarrow>
     (case host_info of
        Inl status \<Rightarrow> StatusError status
      | Inr (host_free, host_total) \<Rightarrow>
        if \<not> fless F (fzero F) (reserved_device_memory_ratio cfg) then
          Aborted (CheckFailed ''reserved_device_memory_ratio must be large than 0.0'')
        else if \<not> fless F (fone F) (lora_host_memory_factor cfg) then
          Aborted (CheckFailed ''lora_host_memory_factor should large than 1.0'')
        else if \<not> fless F (fone F) (block_host_memory_factor cfg) then
          Aborted (CheckFailed ''block_host_memory_factor should large than 1.0'')
        else if block_size (device_allocator_config cfg) = 0 then
          Aborted DivisionByZero
        else
          let device_blocks_num =
                device_block_memory_size F cfg device_free device_total
                  div block_size (device_allocator_config cfg);
              host_block_num =
                to_size F (fmul F (of_size F device_blocks_num) (block_host_memory_factor cfg))
          in if host_block_num * block_size (host_allocator_config cfg) < host_free then
               BlockNumbers device_blocks_num host_block_num
             else Aborted (CheckFailed ''Not enough host free memory'')))"

text \<open>Example configurations for capacity sizing.\<close>

definition sizing_config :: "rat \<Rightarrow> rat \<Rightarrow> size_t \<Rightarrow> rat BlockManagerConfig" where
  "sizing_config ratio factor bs =
     \<lparr>host_allocator_config = \<lparr>blocks_num = 0, block_size = bs, block_token_num = 16\<rparr>,
      device_allocator_config = \<lparr>blocks_num = 0, block_size = bs, block_token_num = 16\<rparr>,
      reserved_device_memory_ratio = 1 / 16,
      block_device_memory_ratio = ratio,
      lora_host_memory_factor = 10,
      block_host_memory_factor = factor\<rparr>"

section \<open>Block manager: swapping blocks out\<close>

text \<open>
  Modelled from the spec: the block allocators (\<^verbatim>\<open>HostAllocator\<close>,
  \<^verbatim>\<open>NvidiaDeviceAllocator\<close>) are not among the sources. An allocator keeps a pool of
  free blocks and a map of used blocks, keyed by block id; a used block carries its
  reference count. Each block has a fixed address.
\<close>

record Allocator =
  free_map :: "(nat \<times> nat) list"
  used_map :: "(nat \<times> nat \<times> nat) list"

text \<open>
  Modelled from the spec: \<^verbatim>\<open>AllocateBlocks(n, out_ids)\<close> pops \<open>n\<close> ids from the free
  pool into the used map with reference count 1, and fails as a whole, changing
  nothing, when fewer than \<open>n\<close> blocks are free.
\<close>

definition AllocateBlocks :: "nat \<Rightarrow> Allocator \<Rightarrow> Status + (nat list \<times> Allocator)" where
  "AllocateBlocks n a =
     (if length (free_map a) < n then Inl (Status RET_OUT_OF_MEMORY ''No more free blocks.'')
      else
        let taken = take n (free_map a) in
        Inr (map fst taken,
             a\<lparr>free_map := drop n (free_map a),
               used_map := used_map a @ map (\<lambda>(i, addr). (i, addr, 1)) taken\<rparr>))"

text \<open>
  Modelled from the spec: \<^verbatim>\<open>GetBlockPtrs(ids, out_addrs)\<close> looks every id up among the
  used and the free blocks and fails with an invalid-argument status on an unknown id.
\<close>

definition block_address :: "Allocator \<Rightarrow> nat \<Rightarrow> nat option" where
  "block_address a i =
     (case map_of (used_map a) i of
        Some (addr, refs) \<Rightarrow> Some addr
      | None \<Rightarrow> map_of (free_map a) i)"

fun GetBlockPtrs :: "nat list \<Rightarrow> Allocator \<Rightarrow> Status + nat list" where
  "GetBlockPtrs [] a = Inr []"
| "GetBlockPtrs (i # ids) a =
     (case block_address a i of
        None \<Rightarrow> Inl (Status RET_INVALID_ARGUMENT ''Get block address error.'')
      | Some addr \<Rightarrow>
          (case GetBlockPtrs ids a of
             Inl st \<Rightarrow> Inl st
           | Inr addrs \<Rightarrow> Inr (addr # addrs)))"

text \<open>
  Modelled from the spec: \<^verbatim>\<open>FreeBlocks(ids)\<close> decrements the reference count of each
  block and moves it back to the free pool when the count reaches zero; an id that is
  not in use is an invalid argument.
\<close>

fun FreeBlocks :: "nat list \<Rightarrow> Allocator \<Rightarrow> Status \<times> Allocator" where
  "FreeBlocks [] a = (Status_default, a)"
| "FreeBlocks (i # ids) a =
     (case map_of (used_map a) i of
        None \<Rightarrow> (Status RET_INVALID_ARGUMENT ''Double free error.'', a)
      | Some (addr, refs) \<Rightarrow>
          if refs \<le> 1 then
            FreeBlocks ids
              (a\<lparr>used_map := filter (\<lambda>e. fst e \<noteq> i) (used_map a),
                 free_map := free_map a @ [(i, addr)]\<rparr>)
          else
            FreeBlocks ids
              (a\<lparr>used_map := map (\<lambda>e. if fst e = i then (i, addr, refs - 1) else e)
                                (used_map a)\<rparr>))"

text \<open>
  What \<^verbatim>\<open>SwapOut\<close> does to the outside, in program order: the allocator calls that
  succeed and the asynchronous copies it enqueues (destination, source, byte count,
  stream).
\<close>

datatype swap_event =
    HostAllocate "nat list"
  | MemcpyDeviceToHost nat nat nat nat
  | DeviceFree "nat list"

text \<open>
  The block manager with the parts of the context it reads: the current CUDA device
  (\<^verbatim>\<open>GetDeviceId()\<close>), whether context decode and decode run serially, and the compute
  streams, one per rank.
\<close>

record BlockManager =
  host_allocator :: Allocator
  device_allocators :: "Allocator list"
  bm_block_size :: nat
  current_device :: nat
  run_serially :: bool
  compute_streams :: "nat list"
  event_log :: "swap_event list"

datatype swap_outcome =
    Returned Status
  | Thrown abort

text \<open>
  The copy loop: one \<^verbatim>\<open>cudaMemcpyAsync\<close> per device block, from the device address to
  the host address with the same index.
\<close>

definition copy_events :: "nat list \<Rightarrow> nat list \<Rightarrow> nat \<Rightarrow> nat \<Rightarrow> nat \<Rightarrow> swap_event list" where
  "copy_events host_addrs device_addrs n bytes stream =
     map (\<lambda>i. MemcpyDeviceToHost (host_addrs ! i) (device_addrs ! i) bytes stream) [0..<n]"

text \<open>
  \<^verbatim>\<open>SwapOut(device_blocks, host_blocks)\<close>. The result is how the call ends, the value
  left in \<^verbatim>\<open>host_blocks\<close>, and the block manager afterwards. \<^verbatim>\<open>STATUS_CHECK_RETURN\<close>
  returns a failing status at once. An index outside \<^verbatim>\<open>device_allocators_\<close> or the
  stream vector is undefined in the source and ends the model with \<open>BadIndex\<close>. The
  status of the final \<^verbatim>\<open>FreeBlocks\<close> is dropped, as in the source.
\<close>

definition SwapOut ::
  "BlockManager \<Rightarrow> nat list \<Rightarrow> nat list \<Rightarrow> swap_outcome \<times> nat list \<times> BlockManager" where
  "SwapOut bm device_blocks host_blocks0 =
     (case AllocateBlocks (length device_blocks) (host_allocator bm) of
        Inl st \<Rightarrow> (Returned st, host_blocks0, bm)
      | Inr (host_blocks, host') \<Rightarrow>
          let bm1 = bm\<lparr>host_allocator := host',
                       event_log := event_log bm @ [HostAllocate host_blocks]\<rparr> in
          (case GetBlockPtrs host_blocks host' of
             Inl st \<Rightarrow> (Returned st, host_blocks, bm1)
           | Inr host_addrs \<Rightarrow>
               let device_id = current_device bm in
               if \<not> device_id < length (device_allocators bm) then
                 (Thrown BadIndex, host_blocks, bm1)
               else
                 (case GetBlockPtrs device_blocks (device_allocators bm ! device_id) of
                    Inl st \<Rightarrow> (Returned st, host_blocks, bm1)
                  | Inr device_addrs \<Rightarrow>
                      if \<not> run_serially bm then
                        (Thrown (RuntimeError
                           ''Context decode and decode run in concurrently is unimplemented.''),
                         host_blocks, bm1)
                      else if \<not> device_id < length (compute_streams bm) then
                        (Thrown BadIndex, host_blocks, bm1)
                      else
                        let stream = compute_streams bm ! device_id;
                            bm2 = bm1\<lparr>event_log := event_log bm1 @
                                    copy_events host_addrs device_addrs (length device_blocks)
                                      (bm_block_size bm) stream\<rparr>;
                            (free_status, dev') =
                              FreeBlocks device_blocks (device_allocators bm ! device_id);
                            bm3 = bm2\<lparr>device_allocators :=
                                        (device_allocators bm)[device_id := dev'],
                                      event_log := event_log bm2 @ [DeviceFree device_blocks]\<rparr>
                        in (Returned Status_default, host_blocks, bm3))))"

text \<open>Example block managers: two ranks, three host blocks, four device blocks each.\<close>

definition pool :: "nat \<Rightarrow> nat list \<Rightarrow> nat list \<Rightarrow> Allocator" where
  "pool base free used =
     \<lparr>free_map = map (\<lambda>i. (i, base + i * 1024)) free,
      used_map = map (\<lambda>i. (i, base + i * 1024, 1)) used\<rparr>"

definition swap_manager :: "bool \<Rightarrow> nat list \<Rightarrow> BlockManager" where
  "swap_manager serial host_free =
     \<lparr>host_allocator = pool 1000000 host_free [],
      device_allocators = [pool 0 [2, 3] [0, 1], pool 0 [0, 1, 2, 3] []],
      bm_block_size = 1024, current_device = 0, run_serially = serial,
      compute_streams = [70, 71], event_log = []\<rparr>"

section \<open>Properties of the batch scheduler\<close>

lemma fold_set_finished:
  "n \<le> length (infer_request_group w) \<Longrightarrow>
   fold set_finished [0..<n] w =
     w\<lparr>infer_request_group := map (\<lambda>r. r\<lparr>finished := True\<rparr>) (take n (infer_request_group w)) @ drop n (infer_request_group w),
       events := events w @ map SetFinished [0..<n]\<rparr>"
proof (induction n)
  case 0
  then show ?case by simp
next
  case (Suc n)
  then have n: "n < length (infer_request_group w)" by simp
  have "(map (\<lambda>r. r\<lparr>finished := True\<rparr>) (take n (infer_request_group w)) @ drop n (infer_request_group w))
          [n := (infer_request_group w ! n)\<lparr>finished := True\<rparr>]
        = map (\<lambda>r. r\<lparr>finished := True\<rparr>) (take (Suc n) (infer_request_group w)) @ drop (Suc n) (infer_request_group w)"
    using n by (simp add: take_Suc_conv_app_nth list_update_append Cons_nth_drop_Suc [symmetric] upd_conv_take_nth_drop)
  with Suc n show ?case
    by (simp add: set_finished_def nth_append)
qed

lemma fold_push_waiting_buffer:
  "n \<le> length (infer_request_group w) \<Longrightarrow>
   fold push_waiting_buffer [0..<n] w =
     w\<lparr>batch_state := (batch_state w)
          \<lparr>waiting_buffer_queue := waiting_buffer_queue (batch_state w) @ take n (infer_request_group w)\<rparr>,
       events := events w @ map PushWaitingBuffer [0..<n]\<rparr>"
proof (induction n)
  case 0
  then show ?case by simp
next
  case (Suc n)
  then show ?case
    by (simp add: push_waiting_buffer_def take_Suc_conv_app_nth)
qed

lemma reject_group_eq:
  "infer_request_group w \<noteq> [] \<Longrightarrow>
   reject_group s w =
     (s, w\<lparr>infer_request_group :=
             map (\<lambda>r. r\<lparr>finished := True\<rparr>)
               (map (\<lambda>r. r\<lparr>finish_status := s\<rparr>) (infer_request_group w)),
           waiter_notified := waiter_notified w + 1,
           events := events w @ [SetFinishStatus 0 s] @
                     map SetFinished [0..<length (infer_request_group w)] @ [Notify 0]\<rparr>)"
  by (cases "infer_request_group w")
     (simp_all add: reject_group_def Let_def set_finish_status_def notify_def fold_set_finished)

lemma AddInferRequest_full:
  "grp \<noteq> [] \<Longrightarrow> CheckWaitingQueueFull cfg bs (length grp) \<Longrightarrow>
   AddInferRequest cfg bs grp =
     Some (reject_group (Status RET_EXCEED_CAPACITY ''waiting queue is full.'')
            \<lparr>infer_request_group = grp, batch_state = bs, waiter_notified = 0, events = []\<rparr>)"
  by (simp add: AddInferRequest_def)

lemma AddInferRequest_too_long:
  "grp \<noteq> [] \<Longrightarrow> \<not> CheckWaitingQueueFull cfg bs (length grp) \<Longrightarrow>
   CheckRequestExceedLength cfg (grp ! 0) \<Longrightarrow>
   AddInferRequest cfg bs grp =
     Some (reject_group (Status RET_EXCEED_LENGTH ''input length exceed max_token_len.'')
            \<lparr>infer_request_group = grp, batch_state = bs, waiter_notified = 0, events = []\<rparr>)"
  by (simp add: AddInferRequest_def)

lemma AddInferRequest_accept:
  "grp \<noteq> [] \<Longrightarrow> \<not> CheckWaitingQueueFull cfg bs (length grp) \<Longrightarrow>
   \<not> CheckRequestExceedLength cfg (grp ! 0) \<Longrightarrow>
   AddInferRequest cfg bs grp =
     Some (Status_default,
           \<lparr>infer_request_group = grp,
            batch_state = bs\<lparr>waiting_buffer_queue := waiting_buffer_queue bs @ grp\<rparr>,
            waiter_notified = 0,
            events = map PushWaitingBuffer [0..<length grp]\<rparr>)"
  by (simp add: AddInferRequest_def fold_push_waiting_buffer)

lemma reject_group_fst: "infer_request_group w \<noteq> [] \<Longrightarrow> fst (reject_group s w) = s"
  by (simp add: reject_group_eq)

text \<open>
  C1 (as amended). For a group of one request, \<^verbatim>\<open>AddInferRequest\<close> returns, and it
  rejects with \<^verbatim>\<open>RET_EXCEED_CAPACITY\<close> exactly when the waiting queue length plus one
  reaches \<^verbatim>\<open>max_waiting_queue_len\<close>. So the request is rejected both with
  \<^verbatim>\<open>max_waiting_queue_len - 1\<close> and with \<^verbatim>\<open>max_waiting_queue_len\<close> waiting requests,
  and it is accepted (pushed to the waiting buffer) exactly when the queue holds fewer
  than \<^verbatim>\<open>max_waiting_queue_len - 1\<close> requests and the prompt passes the length check.
\<close>

theorem AddInferRequest_single_capacity:
  "case AddInferRequest cfg bs [r] of
     None \<Rightarrow> False
   | Some (st, w) \<Rightarrow>
       (GetCode st = RET_EXCEED_CAPACITY \<longleftrightarrow>
          max_waiting_queue_len cfg \<le> length (waiting_queue bs) + 1) \<and>
       (OK st \<longleftrightarrow>
          length (waiting_queue bs) + 1 < max_waiting_queue_len cfg \<and>
          length (input_tokens r) \<le> max_token_len cfg) \<and>
       (OK st \<longrightarrow> waiting_buffer_queue (batch_state w) = waiting_buffer_queue bs @ [r]) \<and>
       (length (waiting_queue bs) = max_waiting_queue_len cfg - 1 \<longrightarrow>
          GetCode st = RET_EXCEED_CAPACITY) \<and>
       (length (waiting_queue bs) = max_waiting_queue_len cfg \<longrightarrow>
          GetCode st = RET_EXCEED_CAPACITY)"
proof (cases "CheckWaitingQueueFull cfg bs (length [r])")
  case True
  then show ?thesis
    using AddInferRequest_full [of "[r]" cfg bs]
    by (simp add: reject_group_eq OK_def CheckWaitingQueueFull_def)
next
  case notfull: False
  show ?thesis
  proof (cases "CheckRequestExceedLength cfg ([r] ! 0)")
    case True
    with notfull show ?thesis
      using AddInferRequest_too_long [of "[r]" cfg bs]
      by (simp add: reject_group_eq OK_def CheckWaitingQueueFull_def CheckRequestExceedLength_def)
  next
    case False
    with notfull show ?thesis
      using AddInferRequest_accept [of "[r]" cfg bs]
      by (simp add: OK_def Status_default_def CheckWaitingQueueFull_def CheckRequestExceedLength_def)
  qed
qed

theorem AddInferRequest_single_capacity_witness:
  "length (waiting_queue (queue_state [tokens_request [7], tokens_request [8]])) =
     max_waiting_queue_len small_config - 1 \<and>
   map_option (GetCode \<circ> fst)
     (AddInferRequest small_config (queue_state [tokens_request [7], tokens_request [8]])
        [tokens_request [1, 2]]) = Some RET_EXCEED_CAPACITY"
  using AddInferRequest_single_capacity
          [of small_config "queue_state [tokens_request [7], tokens_request [8]]"
              "tokens_request [1, 2]"]
  by (auto simp: queue_state_def small_config_def empty_batch_state_def split: option.splits)

text \<open>
  With a limit of 2 and one waiting request (one below the limit), a single new
  request is rejected with \<^verbatim>\<open>RET_EXCEED_CAPACITY\<close>: 1 + 1 \<ge> 2.
\<close>

theorem waiting_queue_one_below_limit_rejected:
  "length (waiting_queue (queue_state [tokens_request [7]])) =
     max_waiting_queue_len (small_config\<lparr>max_waiting_queue_len := 2\<rparr>) - 1 \<and>
   map_option (GetCode \<circ> fst)
     (AddInferRequest (small_config\<lparr>max_waiting_queue_len := 2\<rparr>)
        (queue_state [tokens_request [7]]) [tokens_request [1, 2]]) = Some RET_EXCEED_CAPACITY \<and>
   map_option (OK \<circ> fst)
     (AddInferRequest (small_config\<lparr>max_waiting_queue_len := 2\<rparr>)
        (queue_state [tokens_request [7]]) [tokens_request [1, 2]]) = Some False"
  by (simp add: AddInferRequest_def CheckWaitingQueueFull_def queue_state_def small_config_def
      empty_batch_state_def reject_group_eq OK_def)

text \<open>
  C5 (as amended). For every request group that passes the waiting-queue check,
  \<^verbatim>\<open>AddInferRequest\<close> returns, and it rejects with \<^verbatim>\<open>RET_EXCEED_LENGTH\<close> exactly when
  the prompt of the group's first request is longer than \<^verbatim>\<open>max_token_len\<close>: a prompt of
  exactly \<^verbatim>\<open>max_token_len\<close> tokens is accepted and the group is appended to the waiting
  buffer, a prompt of \<^verbatim>\<open>max_token_len + 1\<close> tokens is rejected and no queue changes.
\<close>

theorem AddInferRequest_length_gate:
  "grp \<noteq> [] \<Longrightarrow> \<not> CheckWaitingQueueFull cfg bs (length grp) \<Longrightarrow>
   (case AddInferRequest cfg bs grp of
      None \<Rightarrow> False
    | Some (st, w) \<Rightarrow>
        (GetCode st = RET_EXCEED_LENGTH \<longleftrightarrow> max_token_len cfg < length (input_tokens (grp ! 0))) \<and>
        (OK st \<longleftrightarrow> length (input_tokens (grp ! 0)) \<le> max_token_len cfg) \<and>
        (length (input_tokens (grp ! 0)) = max_token_len cfg \<longrightarrow>
           OK st \<and> infer_request_group w = grp \<and>
           waiting_buffer_queue (batch_state w) = waiting_buffer_queue bs @ grp) \<and>
        (length (input_tokens (grp ! 0)) = max_token_len cfg + 1 \<longrightarrow>
           GetCode st = RET_EXCEED_LENGTH \<and> batch_state w = bs))"
proof (cases "CheckRequestExceedLength cfg (grp ! 0)")
  case True
  assume "grp \<noteq> []" and "\<not> CheckWaitingQueueFull cfg bs (length grp)"
  with True show ?thesis
    using AddInferRequest_too_long [of grp cfg bs]
    by (simp add: reject_group_eq OK_def CheckRequestExceedLength_def)
next
  case False
  assume "grp \<noteq> []" and "\<not> CheckWaitingQueueFull cfg bs (length grp)"
  with False show ?thesis
    using AddInferRequest_accept [of grp cfg bs]
    by (simp add: OK_def Status_default_def CheckRequestExceedLength_def)
qed

theorem AddInferRequest_length_gate_witness:
  "[tokens_request [1, 2, 3, 4]] \<noteq> [] \<and>
   \<not> CheckWaitingQueueFull small_config (queue_state []) (length [tokens_request [1, 2, 3, 4]]) \<and>
   length (input_tokens ([tokens_request [1, 2, 3, 4]] ! 0)) = max_token_len small_config \<and>
   map_option (OK \<circ> fst)
     (AddInferRequest small_config (queue_state []) [tokens_request [1, 2, 3, 4]]) = Some True \<and>
   [tokens_request [1, 2, 3, 4, 5]] \<noteq> [] \<and>
   \<not> CheckWaitingQueueFull small_config (queue_state []) (length [tokens_request [1, 2, 3, 4, 5]]) \<and>
   length (input_tokens ([tokens_request [1, 2, 3, 4, 5]] ! 0)) = max_token_len small_config + 1 \<and>
   map_option (GetCode \<circ> fst)
     (AddInferRequest small_config (queue_state []) [tokens_request [1, 2, 3, 4, 5]]) =
     Some RET_EXCEED_LENGTH"
proof -
  have g1: "[tokens_request [1, 2, 3, 4]] \<noteq> []" and g2: "[tokens_request [1, 2, 3, 4, 5]] \<noteq> []"
    by simp_all
  have f1: "\<not> CheckWaitingQueueFull small_config (queue_state []) (length [tokens_request [1, 2, 3, 4]])"
    and f2: "\<not> CheckWaitingQueueFull small_config (queue_state []) (length [tokens_request [1, 2, 3, 4, 5]])"
    by (simp_all add: CheckWaitingQueueFull_def small_config_def queue_state_def empty_batch_state_def)
  have l1: "length (input_tokens ([tokens_request [1, 2, 3, 4]] ! 0)) = max_token_len small_config"
    and l2: "length (input_tokens ([tokens_request [1, 2, 3, 4, 5]] ! 0)) = max_token_len small_config + 1"
    by (simp_all add: tokens_request_def make_infer_request_def small_config_def)
  from AddInferRequest_length_gate [OF g1 f1] l1
  have a: "map_option (OK \<circ> fst)
     (AddInferRequest small_config (queue_state []) [tokens_request [1, 2, 3, 4]]) = Some True"
    by (auto split: option.splits)
  from AddInferRequest_length_gate [OF g2 f2] l2
  have b: "map_option (GetCode \<circ> fst)
     (AddInferRequest small_config (queue_state []) [tokens_request [1, 2, 3, 4, 5]]) =
     Some RET_EXCEED_LENGTH"
    by (auto split: option.splits)
  from g1 g2 f1 f2 l1 l2 a b show ?thesis by blast
qed

text \<open>
  With three waiting requests and a limit of 3, a prompt of exactly \<^verbatim>\<open>max_token_len\<close>
  tokens is not accepted, and a prompt of \<^verbatim>\<open>max_token_len + 1\<close> tokens is rejected with
  \<^verbatim>\<open>RET_EXCEED_CAPACITY\<close>, not \<^verbatim>\<open>RET_EXCEED_LENGTH\<close>: the capacity gate comes first.
\<close>

theorem full_queue_rejects_prompt_of_max_token_len:
  "length (input_tokens (tokens_request [1, 2, 3, 4])) = max_token_len small_config \<and>
   map_option (GetCode \<circ> fst)
     (AddInferRequest small_config (queue_state [tokens_request [7], tokens_request [8], tokens_request [9]])
        [tokens_request [1, 2, 3, 4]]) = Some RET_EXCEED_CAPACITY \<and>
   length (input_tokens (tokens_request [1, 2, 3, 4, 5])) = max_token_len small_config + 1 \<and>
   map_option (GetCode \<circ> fst)
     (AddInferRequest small_config (queue_state [tokens_request [7], tokens_request [8], tokens_request [9]])
        [tokens_request [1, 2, 3, 4, 5]]) = Some RET_EXCEED_CAPACITY"
  by (simp add: AddInferRequest_def CheckWaitingQueueFull_def queue_state_def small_config_def
      empty_batch_state_def reject_group_eq tokens_request_def make_infer_request_def)

text \<open>
  C6. Whenever \<^verbatim>\<open>AddInferRequest\<close> rejects a group, by capacity or by length, every
  request of the group ends with \<^verbatim>\<open>finished = true\<close> and with the rejection status,
  which the group shares and which is returned; the writes happen in the order status,
  then \<^verbatim>\<open>finished\<close> of each request, then \<^verbatim>\<open>Notify()\<close>, so every flag is set before
  the notification; the waiter of the group, and with it each of its requests, is
  notified exactly once; no queue changes.
\<close>

theorem AddInferRequest_rejection:
  "AddInferRequest cfg bs grp = Some (st, w) \<Longrightarrow> \<not> OK st \<Longrightarrow>
     (GetCode st = RET_EXCEED_CAPACITY \<or> GetCode st = RET_EXCEED_LENGTH) \<and>
     length (infer_request_group w) = length grp \<and>
     (\<forall>r \<in> set (infer_request_group w). finished r \<and> finish_status r = st) \<and>
     finish_status (infer_request_group w ! 0) = st \<and>
     events w = [SetFinishStatus 0 st] @ map SetFinished [0..<length grp] @ [Notify 0] \<and>
     count_list (events w) (Notify 0) = 1 \<and>
     waiter_notified w = 1 \<and>
     batch_state w = bs"
proof -
  assume res: "AddInferRequest cfg bs grp = Some (st, w)" and bad: "\<not> OK st"
  from res have ne: "grp \<noteq> []"
    by (auto simp: AddInferRequest_def split: if_splits)
  let ?w0 = "\<lparr>infer_request_group = grp, batch_state = bs, waiter_notified = 0, events = []\<rparr>"
  have cnt: "count_list (map SetFinished xs) (Notify 0) = 0" for xs
    by (induction xs) simp_all
  from res bad ne have
    "(st, w) = reject_group (Status RET_EXCEED_CAPACITY ''waiting queue is full.'') ?w0 \<or>
     (st, w) = reject_group (Status RET_EXCEED_LENGTH ''input length exceed max_token_len.'') ?w0"
    by (auto simp: AddInferRequest_def Let_def OK_def Status_default_def split: if_splits)
  then obtain s where s: "(st, w) = reject_group s ?w0"
    and c: "GetCode s = RET_EXCEED_CAPACITY \<or> GetCode s = RET_EXCEED_LENGTH"
    using GetCode.simps by blast
  from ne have "reject_group s ?w0 =
     (s, ?w0\<lparr>infer_request_group :=
              map (\<lambda>r. r\<lparr>finished := True\<rparr>) (map (\<lambda>r. r\<lparr>finish_status := s\<rparr>) grp),
            waiter_notified := 0 + 1,
            events := [] @ [SetFinishStatus 0 s] @ map SetFinished [0..<length grp] @ [Notify 0]\<rparr>)"
    using reject_group_eq [of ?w0 s] by simp
  with s have st: "st = s"
    and w: "w = ?w0\<lparr>infer_request_group :=
              map (\<lambda>r. r\<lparr>finished := True\<rparr>) (map (\<lambda>r. r\<lparr>finish_status := s\<rparr>) grp),
            waiter_notified := 1,
            events := [SetFinishStatus 0 s] @ map SetFinished [0..<length grp] @ [Notify 0]\<rparr>"
    by simp_all
  from ne have "0 < length grp" by simp
  with st w c show ?thesis
    by (simp add: cnt)
qed

theorem AddInferRequest_rejection_witness:
  "AddInferRequest small_config (queue_state [tokens_request [7], tokens_request [8]])
     [tokens_request [1], tokens_request [2]] \<noteq> None \<and>
   \<not> OK (fst (the (AddInferRequest small_config (queue_state [tokens_request [7], tokens_request [8]])
     [tokens_request [1], tokens_request [2]]))) \<and>
   events (snd (the (AddInferRequest small_config (queue_state [tokens_request [7], tokens_request [8]])
     [tokens_request [1], tokens_request [2]]))) =
     [SetFinishStatus 0 (Status RET_EXCEED_CAPACITY ''waiting queue is full.''),
      SetFinished 0, SetFinished 1, Notify 0] \<and>
   waiter_notified (snd (the (AddInferRequest small_config
     (queue_state [tokens_request [7], tokens_request [8]])
     [tokens_request [1], tokens_request [2]]))) = 1 \<and>
   map finish_status (infer_request_group (snd (the (AddInferRequest small_config
     (queue_state [tokens_request [7], tokens_request [8]])
     [tokens_request [1], tokens_request [2]])))) =
     [Status RET_EXCEED_CAPACITY ''waiting queue is full.'',
      Status RET_EXCEED_CAPACITY ''waiting queue is full.''] \<and>
   map finished (infer_request_group (snd (the (AddInferRequest small_config
     (queue_state [tokens_request [7], tokens_request [8]])
     [tokens_request [1], tokens_request [2]])))) = [True, True]"
proof -
  let ?run = "AddInferRequest small_config (queue_state [tokens_request [7], tokens_request [8]])
     [tokens_request [1], tokens_request [2]]"
  have full: "CheckWaitingQueueFull small_config (queue_state [tokens_request [7], tokens_request [8]])
     (length [tokens_request [1], tokens_request [2]])"
    by (simp add: CheckWaitingQueueFull_def small_config_def queue_state_def empty_batch_state_def)
  define st where "st = fst (the ?run)"
  define w where "w = snd (the ?run)"
  have some: "?run = Some (st, w)"
    unfolding st_def w_def using full by (simp add: AddInferRequest_def)
  have st: "st = Status RET_EXCEED_CAPACITY ''waiting queue is full.''"
    unfolding st_def using full by (simp add: AddInferRequest_def reject_group_fst)
  have nok: "\<not> OK st"
    by (simp add: st OK_def)
  note r = AddInferRequest_rejection [OF some nok]
  from r have ev: "events w = [SetFinishStatus 0 st, SetFinished 0, SetFinished 1, Notify 0]"
    by (simp add: upt_rec)
  from r have wn: "waiter_notified w = 1"
    by simp
  from r have len: "length (infer_request_group w) = 2"
    and all: "\<forall>r \<in> set (infer_request_group w). finished r \<and> finish_status r = st"
    by simp_all
  from len obtain a b where ab: "infer_request_group w = [a, b]"
    by (metis (no_types) length_0_conv length_Suc_conv numeral_2_eq_2)
  with all have fs: "map finish_status (infer_request_group w) = [st, st]"
    and fd: "map finished (infer_request_group w) = [True, True]"
    by simp_all
  from some have "?run \<noteq> None" by simp
  with nok ev wn fs fd st show ?thesis
    unfolding st_def w_def by simp
qed

text \<open>
  C9. The constructor of the batch scheduler fails its configuration check for every
  configuration with \<^verbatim>\<open>max_step_tokens \<le> max_token_len\<close>, and passes it otherwise.
\<close>

theorem BatchScheduler_init_check:
  "(max_step_tokens cfg \<le> max_token_len cfg \<longrightarrow>
      BatchScheduler_init cfg =
        Inl (CheckFailed ''The max_step_tokens must large than max_token_len, %d vs %d.'')) \<and>
   (max_token_len cfg < max_step_tokens cfg \<longrightarrow> BatchScheduler_init cfg = Inr empty_batch_state)"
  by (simp add: BatchScheduler_init_def)

theorem BatchScheduler_init_check_witness:
  "max_step_tokens (small_config\<lparr>max_step_tokens := 4\<rparr>) \<le> max_token_len (small_config\<lparr>max_step_tokens := 4\<rparr>) \<and>
   BatchScheduler_init (small_config\<lparr>max_step_tokens := 4\<rparr>) =
     Inl (CheckFailed ''The max_step_tokens must large than max_token_len, %d vs %d.'') \<and>
   max_token_len small_config < max_step_tokens small_config \<and>
   BatchScheduler_init small_config = Inr empty_batch_state"
  using BatchScheduler_init_check [of "small_config\<lparr>max_step_tokens := 4\<rparr>"]
        BatchScheduler_init_check [of small_config]
  by (simp add: small_config_def)

section \<open>Properties of the batch manager\<close>

lemma Enqueue_cases:
  assumes "r2 = (make_infer_request req)
             \<lparr>kv_cache_blocks := replicate (tensor_parallel_size bm) [],
              req_block_size := manager_block_size bm,
              model_instance := fst (lookup_model_instance (model_instances bm) (model_name req)),
              infer_stage := STAGE_CONTEXT, step := 0\<rparr>"
  shows "Enqueue bm req =
     (case AddInferRequest (scheduler_config bm) (scheduler_state bm) [r2] of
           None \<Rightarrow> None
         | Some (enqueue_status, w) \<Rightarrow>
             Some \<lparr>returned = Status_default,
                   scheduler_returned = enqueue_status,
                   manager = bm\<lparr>scheduler_state := batch_state w,
                                model_instances := snd (lookup_model_instance (model_instances bm) (model_name req)),
                                queue_waiter_notified := queue_waiter_notified bm + 1\<rparr>,
                   infer_req = infer_request_group w ! 0,
                   req_events = events w\<rparr>)"
  using assms by (simp add: Enqueue_def Let_def case_prod_beta)

text \<open>
  C10. \<^verbatim>\<open>Enqueue\<close> returns the success status for every request and notifies the queue
  waiter once, whatever the scheduler answered. When the scheduler rejected the
  request, the rejection shows in the request only: \<^verbatim>\<open>finished\<close> is set,
  \<^verbatim>\<open>finish_status\<close> holds \<^verbatim>\<open>RET_EXCEED_CAPACITY\<close> or \<^verbatim>\<open>RET_EXCEED_LENGTH\<close>, the request
  was notified once, and the scheduler's queues are unchanged.
\<close>

theorem Enqueue_returns_success:
  "case Enqueue bm req of
     None \<Rightarrow> False
   | Some res \<Rightarrow>
       returned res = Status_default \<and> OK (returned res) \<and>
       queue_waiter_notified (manager res) = queue_waiter_notified bm + 1 \<and>
       (\<not> OK (scheduler_returned res) \<longrightarrow>
          (GetCode (scheduler_returned res) = RET_EXCEED_CAPACITY \<or>
           GetCode (scheduler_returned res) = RET_EXCEED_LENGTH) \<and>
          finished (infer_req res) \<and>
          finish_status (infer_req res) = scheduler_returned res \<and>
          count_list (req_events res) (Notify 0) = 1 \<and>
          scheduler_state (manager res) = scheduler_state bm)"
proof -
  define r2 where "r2 = (make_infer_request req)
             \<lparr>kv_cache_blocks := replicate (tensor_parallel_size bm) [],
              req_block_size := manager_block_size bm,
              model_instance := fst (lookup_model_instance (model_instances bm) (model_name req)),
              infer_stage := STAGE_CONTEXT, step := 0\<rparr>"
  note e = Enqueue_cases [OF r2_def]
  have ok: "OK Status_default" by (simp add: OK_def Status_default_def)
  show ?thesis
  proof (cases "CheckWaitingQueueFull (scheduler_config bm) (scheduler_state bm) (length [r2])")
    case True
    then show ?thesis
      using AddInferRequest_full [of "[r2]" "scheduler_config bm" "scheduler_state bm"] ok
      by (simp add: e reject_group_eq)
  next
    case notfull: False
    show ?thesis
    proof (cases "CheckRequestExceedLength (scheduler_config bm) ([r2] ! 0)")
      case True
      with notfull show ?thesis
        using AddInferRequest_too_long [of "[r2]" "scheduler_config bm" "scheduler_state bm"] ok
        by (simp add: e reject_group_eq)
    next
      case False
      with notfull show ?thesis
        using AddInferRequest_accept [of "[r2]" "scheduler_config bm" "scheduler_state bm"] ok
        by (simp add: e)
    qed
  qed
qed

theorem Enqueue_returns_success_witness:
  "Enqueue small_manager long_request \<noteq> None \<and>
   \<not> OK (scheduler_returned (the (Enqueue small_manager long_request))) \<and>
   GetCode (scheduler_returned (the (Enqueue small_manager long_request))) = RET_EXCEED_LENGTH \<and>
   OK (returned (the (Enqueue small_manager long_request))) \<and>
   finished (infer_req (the (Enqueue small_manager long_request))) \<and>
   queue_waiter_notified (manager (the (Enqueue small_manager long_request))) = 1"
proof -
  have sr: "Enqueue small_manager long_request \<noteq> None \<and>
    GetCode (scheduler_returned (the (Enqueue small_manager long_request))) = RET_EXCEED_LENGTH"
    by (simp add: Enqueue_def small_manager_def long_request_def lookup_model_instance_def
        make_infer_request_def AddInferRequest_def CheckWaitingQueueFull_def
        CheckRequestExceedLength_def small_config_def empty_batch_state_def reject_group_eq)
  then have nok: "\<not> OK (scheduler_returned (the (Enqueue small_manager long_request)))"
    by (simp add: OK_def)
  from Enqueue_returns_success [of small_manager long_request] sr nok show ?thesis
    by (auto simp: small_manager_def split: option.splits)
qed

section \<open>Properties of the step driver\<close>

lemma take_two_parts:
  "length a = n \<Longrightarrow> length b = m \<Longrightarrow> take (n + m) (a @ b @ c) = a @ b"
  by simp

lemma drop_two_parts:
  "length a = n \<Longrightarrow> length b = m \<Longrightarrow> drop (n + m + j) (a @ b @ c) = drop j c"
  by simp

lemma fill_request_eq:
  "base + k + length ps \<le> length cpu \<Longrightarrow>
   fill_request base off ps (cpu, k) =
     (take (base + k) cpu @ map (\<lambda>p. p + off) ps @ drop (base + k + length ps) cpu,
      k + length ps)"
proof (induction ps arbitrary: cpu k)
  case Nil
  then show ?case by simp
next
  case (Cons p ps)
  let ?cpu = "cpu[base + k := p + off]"
  from Cons.prems have lt: "base + k < length cpu" by simp
  from Cons.prems have "base + (k + 1) + length ps \<le> length ?cpu" by simp
  from Cons.IH [OF this]
  have ih: "fill_request base off ps (?cpu, k + 1) =
     (take (base + (k + 1)) ?cpu @ map (\<lambda>p. p + off) ps @ drop (base + (k + 1) + length ps) ?cpu,
      k + 1 + length ps)" .
  have t: "take (base + (k + 1)) ?cpu = take (base + k) cpu @ [p + off]"
    using lt by (simp add: take_Suc_conv_app_nth)
  have d: "drop (base + (k + 1) + length ps) ?cpu = drop (base + k + length (p # ps)) cpu"
    by simp
  have "fill_request base off (p # ps) (cpu, k) = fill_request base off ps (?cpu, k + 1)"
    by simp
  also have "\<dots> = (take (base + k) cpu @ [p + off] @ map (\<lambda>p. p + off) ps @
                       drop (base + k + length (p # ps)) cpu, k + 1 + length ps)"
    unfolding ih t d by simp
  finally show ?case by simp
qed

lemma fill_batch_eq:
  "base + k + length (concat pss) \<le> length cpu \<Longrightarrow>
   fill_batch base off pss (cpu, k) =
     (take (base + k) cpu @ map (\<lambda>p. p + off) (concat pss) @
        drop (base + k + length (concat pss)) cpu,
      k + length (concat pss))"
proof (induction pss arbitrary: cpu k)
  case Nil
  then show ?case by simp
next
  case (Cons ps pss)
  let ?mid = "take (base + k) cpu @ map (\<lambda>p. p + off) ps @ drop (base + k + length ps) cpu"
  from Cons.prems have a: "base + k + length ps \<le> length cpu" by simp
  have len: "length ?mid = length cpu" using a by simp
  from Cons.prems len
  have b: "base + (k + length ps) + length (concat pss) \<le> length ?mid" by simp
  have la: "length (take (base + k) cpu) = base + k" using a by simp
  have lb: "length (map (\<lambda>p. p + off) ps) = length ps" by simp
  have t: "take (base + (k + length ps)) ?mid = take (base + k) cpu @ map (\<lambda>p. p + off) ps"
    using take_two_parts [OF la lb] by (simp only: add.assoc)
  have "drop (base + k + length ps + length (concat pss)) ?mid =
        drop (length (concat pss)) (drop (base + k + length ps) cpu)"
    by (rule drop_two_parts [OF la lb])
  then have d: "drop (base + (k + length ps) + length (concat pss)) ?mid =
           drop (base + k + length (concat (ps # pss))) cpu"
    by (simp add: add.assoc add.commute add.left_commute)
  show ?case
    using fill_request_eq [OF a, of off] Cons.IH [OF b] t d
    by (simp add: add.assoc)
qed

lemma kv_layer_eq:
  assumes "tot = length (concat pss)"
    and "L * tot * 2 + 2 * tot \<le> length cpu"
  shows "kv_layer nl bs tot pss L cpu =
     take (L * tot * 2) cpu @ kv_layer_rows nl bs (concat pss) L @
     drop (L * tot * 2 + 2 * tot) cpu"
proof -
  let ?base = "L * tot * 2"
  let ?k = "map (\<lambda>p. p + L * bs div nl) (concat pss)"
  let ?mid = "take ?base cpu @ ?k @ drop (?base + tot) cpu"
  from assms have a: "?base + 0 + length (concat pss) \<le> length cpu" by simp
  have k: "fill_batch ?base (L * bs div nl) pss (cpu, 0) = (?mid, tot)"
    using fill_batch_eq [OF a, of "L * bs div nl"] assms(1) by simp
  have len: "length ?mid = length cpu" using assms by simp
  with assms have b: "?base + tot + length (concat pss) \<le> length ?mid" by simp
  have la: "length (take ?base cpu) = ?base" using assms by simp
  have lb: "length ?k = tot" using assms by simp
  have t: "take (?base + tot) ?mid = take ?base cpu @ ?k"
    by (rule take_two_parts [OF la lb])
  have e: "tot + (?base + tot) = ?base + 2 * tot" by simp
  have "drop (?base + tot + tot) ?mid = drop tot (drop (?base + tot) cpu)"
    by (rule drop_two_parts [OF la lb])
  also have "\<dots> = drop (?base + 2 * tot) cpu"
    by (simp only: drop_drop e)
  finally have d: "drop (?base + tot + length (concat pss)) ?mid = drop (?base + 2 * tot) cpu"
    unfolding assms(1) [symmetric] .
  have v: "fill_batch ?base (L * bs div nl + bs div nl div 2) pss (?mid, tot) =
     (take (?base + tot) ?mid @
        map (\<lambda>p. p + (L * bs div nl + bs div nl div 2)) (concat pss) @
        drop (?base + tot + length (concat pss)) ?mid,
      tot + length (concat pss))"
    by (rule fill_batch_eq [OF b])
  have "kv_layer nl bs tot pss L cpu =
     fst (fill_batch ?base (L * bs div nl + bs div nl div 2) pss (?mid, tot))"
    by (simp only: kv_layer_def Let_def k)
  also have "\<dots> = (take ?base cpu @ ?k) @
        map (\<lambda>p. p + (L * bs div nl + bs div nl div 2)) (concat pss) @
        drop (?base + 2 * tot) cpu"
    by (simp only: v t d fst_conv)
  finally show ?thesis
    by (simp only: kv_layer_rows_def append_assoc)
qed

lemma length_kv_layer_rows: "length (kv_layer_rows nl bs ps L) = 2 * length ps"
  by (simp add: kv_layer_rows_def)

lemma length_concat_rows:
  "length (concat (map (kv_layer_rows nl bs ps) [0..<j])) = j * (2 * length ps)"
  by (induction j) (simp_all add: length_kv_layer_rows)

lemma fold_kv_layer:
  assumes "tot = length (concat pss)"
  shows "j \<le> n \<Longrightarrow>
     fold (kv_layer nl bs tot pss) [0..<j] (replicate (n * tot * 2) 0) =
     concat (map (kv_layer_rows nl bs (concat pss)) [0..<j]) @ replicate ((n - j) * tot * 2) 0"
proof (induction j)
  case 0
  then show ?case by simp
next
  case (Suc j)
  let ?done = "concat (map (kv_layer_rows nl bs (concat pss)) [0..<j])"
  let ?cpu = "?done @ replicate ((n - j) * tot * 2) 0"
  have ld: "length ?done = j * tot * 2"
    using assms by (simp add: length_concat_rows)
  from Suc.prems obtain d where n: "n = Suc j + d"
    using le_Suc_ex by blast
  have fits: "j * tot * 2 + 2 * tot \<le> length ?cpu"
    using ld n by simp
  have t: "take (j * tot * 2) ?cpu = ?done"
    using ld by simp
  have dr: "drop (j * tot * 2 + 2 * tot) ?cpu = replicate ((n - Suc j) * tot * 2) 0"
    using ld n by (simp add: algebra_simps)
  from Suc have "fold (kv_layer nl bs tot pss) [0..<Suc j] (replicate (n * tot * 2) 0) =
    kv_layer nl bs tot pss j ?cpu" by simp
  also have "\<dots> = ?done @ kv_layer_rows nl bs (concat pss) j @ replicate ((n - Suc j) * tot * 2) 0"
    using kv_layer_eq [OF assms fits, of nl bs] t dr by simp
  finally show ?case by simp
qed

lemma build_kv_list_eq:
  "tot = length (concat pss) \<Longrightarrow>
   build_kv_list nl bs tot pss = kv_list_layout nl bs (concat pss)"
  using fold_kv_layer [of tot pss nl nl nl bs]
  by (simp add: build_kv_list_def kv_list_layout_def)

lemma count_loop_ok:
  "\<forall>r \<in> set reqs. rk < length (kv_cache_ptrs r) \<Longrightarrow>
   \<exists>offs. count_loop rk reqs (s, b, offs0) =
     Inr (s + sum_list (map (\<lambda>r. length (output_tokens r)) reqs),
          b + length (concat (map (\<lambda>r. kv_cache_ptrs r ! rk) reqs)), offs)"
proof (induction reqs arbitrary: s b offs0)
  case Nil
  then show ?case by simp
next
  case (Cons r rs)
  then have rk: "rk < length (kv_cache_ptrs r)" and rest: "\<forall>r \<in> set rs. rk < length (kv_cache_ptrs r)"
    by simp_all
  from Cons.IH [OF rest, of "s + length (output_tokens r)" "b + length (kv_cache_ptrs r ! rk)"
      "offs0 @ [b + length (kv_cache_ptrs r ! rk)]"]
  show ?case using rk by (simp add: add.assoc)
qed

lemma context_input_ids_loop_eq:
  "context_input_ids_loop reqs acc = acc @ concat (map output_tokens reqs)"
  by (induction reqs arbitrary: acc) simp_all

lemma vector_at_last:
  "xs \<noteq> [] \<Longrightarrow> vector_at xs (size_minus_one (length xs)) = Inr (last xs)"
  by (simp add: vector_at_def size_minus_one_def last_conv_nth)

lemma vector_at_empty: "vector_at [] (size_minus_one (length [])) = Inl OutOfRange"
  by (simp add: vector_at_def)

lemma decode_input_ids_loop_eq:
  "\<forall>r \<in> set reqs. output_tokens r \<noteq> [] \<Longrightarrow> idx + length reqs \<le> length cpu \<Longrightarrow>
   decode_input_ids_loop idx reqs cpu =
     Inr (take idx cpu @ map (\<lambda>r. last (output_tokens r)) reqs @ drop (idx + length reqs) cpu)"
proof (induction reqs arbitrary: idx cpu)
  case Nil
  then show ?case by simp
next
  case (Cons r rs)
  let ?cpu = "cpu[idx := last (output_tokens r)]"
  from Cons.prems have ne: "output_tokens r \<noteq> []" and rest: "\<forall>r \<in> set rs. output_tokens r \<noteq> []"
    and lt: "idx < length cpu" and fit: "(idx + 1) + length rs \<le> length ?cpu"
    by simp_all
  have t: "take (idx + 1) ?cpu = take idx cpu @ [last (output_tokens r)]"
    using lt by (simp add: take_Suc_conv_app_nth)
  have d: "drop (idx + 1 + length rs) ?cpu = drop (idx + length (r # rs)) cpu"
    by simp
  have "decode_input_ids_loop idx (r # rs) cpu = decode_input_ids_loop (idx + 1) rs ?cpu"
    using vector_at_last [OF ne] by simp
  also have "\<dots> = Inr (take (idx + 1) ?cpu @ map (\<lambda>r. last (output_tokens r)) rs @
                        drop (idx + 1 + length rs) ?cpu)"
    by (rule Cons.IH [OF rest fit])
  finally show ?case
    unfolding t d by simp
qed

lemma nth_concat_uniform:
  "\<forall>j<n. length (f j) = len \<Longrightarrow> L < n \<Longrightarrow> i < len \<Longrightarrow>
   concat (map f [0..<n]) ! (L * len + i) = f L ! i"
proof (induction n)
  case 0
  then show ?case by simp
next
  case (Suc n)
  have len: "length (concat (map f [0..<n])) = n * len"
    using Suc.prems(1) by (induction n) simp_all
  show ?case
  proof (cases "L < n")
    case True
    then have "L * len + i < n * len"
      using Suc.prems(3)
      by (metis add.commute mult_Suc less_le_trans add_less_cancel_left Suc_leI mult_le_mono1)
    with True Suc show ?thesis
      by (simp add: nth_append len)
  next
    case False
    with Suc.prems have "L = n" by simp
    then show ?thesis
      by (simp add: nth_append len)
  qed
qed

lemma kv_list_layout_nth:
  assumes "L < nl" and "i < length ps"
  shows "kv_list_layout nl bs ps ! (L * (length ps * 2) + i) = ps ! i + L * bs div nl"
    and "kv_list_layout nl bs ps ! (L * (length ps * 2) + length ps + i) =
           ps ! i + L * bs div nl + bs div nl div 2"
proof -
  have u: "\<forall>j<nl. length (kv_layer_rows nl bs ps j) = length ps * 2"
    by (simp add: length_kv_layer_rows)
  from assms have i1: "i < length ps * 2" and i2: "length ps + i < length ps * 2" by simp_all
  have "kv_list_layout nl bs ps ! (L * (length ps * 2) + i) = kv_layer_rows nl bs ps L ! i"
    unfolding kv_list_layout_def by (rule nth_concat_uniform [OF u assms(1) i1])
  then show "kv_list_layout nl bs ps ! (L * (length ps * 2) + i) = ps ! i + L * bs div nl"
    using assms(2) by (simp add: kv_layer_rows_def nth_append)
  have "kv_list_layout nl bs ps ! (L * (length ps * 2) + (length ps + i)) =
          kv_layer_rows nl bs ps L ! (length ps + i)"
    unfolding kv_list_layout_def by (rule nth_concat_uniform [OF u assms(1) i2])
  then show "kv_list_layout nl bs ps ! (L * (length ps * 2) + length ps + i) =
           ps ! i + L * bs div nl + bs div nl div 2"
    using assms(2) by (simp add: kv_layer_rows_def nth_append add.assoc)
qed

lemma length_kv_list_layout: "length (kv_list_layout nl bs ps) = nl * (length ps * 2)"
  by (simp add: kv_list_layout_def length_concat_rows mult.commute)

lemma ContextDecode_ok:
  assumes "length reqs \<le> llama_max_batch_size m"
    and "\<forall>r \<in> set reqs. rank m < length (kv_cache_ptrs r)"
  shows "\<exists>offs. ContextDecode m reqs =
     Inr \<lparr>input_ids_shape = sum_list (map (\<lambda>r. length (output_tokens r)) reqs),
          input_ids = concat (map output_tokens reqs),
          kv_cache_offset_list = offs,
          kv_list_shape = (num_layer m, length (concat (map (\<lambda>r. kv_cache_ptrs r ! rank m) reqs)) * 2),
          kv_list = kv_list_layout (num_layer m) (llama_block_size m)
                      (concat (map (\<lambda>r. kv_cache_ptrs r ! rank m) reqs))\<rparr>"
proof -
  from count_loop_ok [OF assms(2), of 0 0 "[0]"] obtain offs where
    "count_loop (rank m) reqs (0, 0, [0]) =
       Inr (sum_list (map (\<lambda>r. length (output_tokens r)) reqs),
            length (concat (map (\<lambda>r. kv_cache_ptrs r ! rank m) reqs)), offs)"
    by auto
  with assms(1) show ?thesis
    by (simp add: ContextDecode_def context_input_ids_loop_eq build_kv_list_eq)
qed

lemma Decode_ok:
  assumes "length reqs \<le> llama_max_batch_size m"
    and "\<forall>r \<in> set reqs. rank m < length (kv_cache_ptrs r)"
    and "\<forall>r \<in> set reqs. output_tokens r \<noteq> []"
  shows "\<exists>offs. Decode m reqs =
     Inr \<lparr>input_ids_shape = length reqs,
          input_ids = map (\<lambda>r. last (output_tokens r)) reqs,
          kv_cache_offset_list = offs,
          kv_list_shape = (num_layer m, length (concat (map (\<lambda>r. kv_cache_ptrs r ! rank m) reqs)) * 2),
          kv_list = kv_list_layout (num_layer m) (llama_block_size m)
                      (concat (map (\<lambda>r. kv_cache_ptrs r ! rank m) reqs))\<rparr>"
proof -
  from count_loop_ok [OF assms(2), of 0 0 "[0]"] obtain offs where
    "count_loop (rank m) reqs (0, 0, [0]) =
       Inr (sum_list (map (\<lambda>r. length (output_tokens r)) reqs),
            length (concat (map (\<lambda>r. kv_cache_ptrs r ! rank m) reqs)), offs)"
    by auto
  moreover have "decode_input_ids_loop 0 reqs (replicate (length reqs) 0) =
      Inr (map (\<lambda>r. last (output_tokens r)) reqs)"
    using decode_input_ids_loop_eq [OF assms(3), of 0 "replicate (length reqs) 0"] by simp
  ultimately show ?thesis using assms(1)
    by (simp add: Decode_def build_kv_list_eq)
qed

lemma kv_list_layout_divisible:
  "nl dvd bs \<Longrightarrow> kv_list_layout nl bs ps = kv_list_as_specified nl bs ps"
proof -
  assume dv: "nl dvd bs"
  have "kv_layer_rows nl bs ps =
        (\<lambda>L. map (\<lambda>p. p + L * (bs div nl)) ps @
             map (\<lambda>p. p + L * (bs div nl) + (bs div nl) div 2) ps)"
    by (rule ext) (simp add: kv_layer_rows_def div_mult_swap [OF dv] add.assoc)
  then show ?thesis
    by (simp only: kv_list_layout_def kv_list_as_specified_def)
qed

text \<open>
  C7. For a batch within \<^verbatim>\<open>max_batch_size_\<close> whose requests carry a block list for the
  rank, \<^verbatim>\<open>ContextDecode\<close> builds \<^verbatim>\<open>input_ids\<close> as the tokens of all requests
  concatenated in request order, of length the sum of the token counts; \<^verbatim>\<open>Decode\<close>
  builds it as the last element of each request's \<^verbatim>\<open>output_tokens\<close>, one per request,
  of length the batch size.
\<close>

theorem step_driver_input_ids:
  assumes "length reqs \<le> llama_max_batch_size m"
    and "\<forall>r \<in> set reqs. rank m < length (kv_cache_ptrs r)"
  shows "(case ContextDecode m reqs of
            Inl e \<Rightarrow> False
          | Inr mi \<Rightarrow>
              input_ids mi = concat (map output_tokens reqs) \<and>
              input_ids_shape mi = sum_list (map (\<lambda>r. length (output_tokens r)) reqs) \<and>
              length (input_ids mi) = input_ids_shape mi) \<and>
         ((\<forall>r \<in> set reqs. output_tokens r \<noteq> []) \<longrightarrow>
          (case Decode m reqs of
             Inl e \<Rightarrow> False
           | Inr mi \<Rightarrow>
               input_ids mi = map (\<lambda>r. last (output_tokens r)) reqs \<and>
               input_ids_shape mi = length reqs \<and>
               length (input_ids mi) = length reqs))"
proof -
  have len: "length (concat (map output_tokens reqs)) =
             sum_list (map (\<lambda>r. length (output_tokens r)) reqs)"
    by (simp add: length_concat comp_def)
  from ContextDecode_ok [OF assms] len have c: "case ContextDecode m reqs of
            Inl e \<Rightarrow> False
          | Inr mi \<Rightarrow>
              input_ids mi = concat (map output_tokens reqs) \<and>
              input_ids_shape mi = sum_list (map (\<lambda>r. length (output_tokens r)) reqs) \<and>
              length (input_ids mi) = input_ids_shape mi"
    by auto
  have d: "case Decode m reqs of
             Inl e \<Rightarrow> False
           | Inr mi \<Rightarrow>
               input_ids mi = map (\<lambda>r. last (output_tokens r)) reqs \<and>
               input_ids_shape mi = length reqs \<and>
               length (input_ids mi) = length reqs"
    if "\<forall>r \<in> set reqs. output_tokens r \<noteq> []"
    using Decode_ok [OF assms that] by auto
  from c d show ?thesis by blast
qed

theorem step_driver_input_ids_witness:
  "length [forward_request [1, 2, 3] [4096], forward_request [7, 8] [8192, 12288]]
     \<le> llama_max_batch_size two_layer_llama \<and>
   list_all (\<lambda>r. rank two_layer_llama < length (kv_cache_ptrs r) \<and> output_tokens r \<noteq> [])
     [forward_request [1, 2, 3] [4096], forward_request [7, 8] [8192, 12288]] \<and>
   map_sum (\<lambda>e. e) input_ids
     (ContextDecode two_layer_llama
        [forward_request [1, 2, 3] [4096], forward_request [7, 8] [8192, 12288]]) =
     Inr [1, 2, 3, 7, 8] \<and>
   map_sum (\<lambda>e. e) input_ids
     (Decode two_layer_llama
        [forward_request [1, 2, 3] [4096], forward_request [7, 8] [8192, 12288]]) =
     Inr [3, 8]"
proof -
  let ?reqs = "[forward_request [1, 2, 3] [4096], forward_request [7, 8] [8192, 12288]]"
  have a: "length ?reqs \<le> llama_max_batch_size two_layer_llama"
    by (simp add: two_layer_llama_def)
  have b: "\<forall>r \<in> set ?reqs. rank two_layer_llama < length (kv_cache_ptrs r)"
    by (simp add: two_layer_llama_def forward_request_def)
  have c: "\<forall>r \<in> set ?reqs. output_tokens r \<noteq> []"
    by (simp add: forward_request_def)
  from step_driver_input_ids [OF a b] c
  have "map_sum (\<lambda>e. e) input_ids (ContextDecode two_layer_llama ?reqs) = Inr [1, 2, 3, 7, 8]"
    and "map_sum (\<lambda>e. e) input_ids (Decode two_layer_llama ?reqs) = Inr [3, 8]"
    by (auto simp: forward_request_def split: sum.splits)
  with a b c show ?thesis by simp
qed

text \<open>
  C3. For a scheduled batch (within \<^verbatim>\<open>max_batch_size_\<close>, each request with a block list
  for the rank) and a block size that splits into \<^verbatim>\<open>num_layer\<close> equal slices, both
  \<^verbatim>\<open>ContextDecode\<close> and \<^verbatim>\<open>Decode\<close> build \<^verbatim>\<open>kv_list\<close> as a flat array of shape
  \<^verbatim>\<open>[num_layer, total_block_num * 2]\<close>: in the row of layer \<open>L\<close> the first
  \<^verbatim>\<open>total_block_num\<close> entries are the K pointers
  \<^verbatim>\<open>block_ptr + L * (block_size / num_layer)\<close> in request order and the next
  \<^verbatim>\<open>total_block_num\<close> entries are the V pointers
  \<^verbatim>\<open>block_ptr + L * (block_size / num_layer) + (block_size / num_layer) / 2\<close>, row after
  row.
\<close>

theorem step_driver_kv_list:
  assumes "length reqs \<le> llama_max_batch_size m"
    and "\<forall>r \<in> set reqs. rank m < length (kv_cache_ptrs r)"
    and "num_layer m dvd llama_block_size m"
    and "ptrs = concat (map (\<lambda>r. kv_cache_ptrs r ! rank m) reqs)"
    and "run = ContextDecode m reqs \<or> (run = Decode m reqs \<and> (\<forall>r \<in> set reqs. output_tokens r \<noteq> []))"
  shows "case run of
           Inl e \<Rightarrow> False
         | Inr mi \<Rightarrow>
             kv_list_shape mi = (num_layer m, length ptrs * 2) \<and>
             length (kv_list mi) = num_layer m * (length ptrs * 2) \<and>
             kv_list mi = kv_list_as_specified (num_layer m) (llama_block_size m) ptrs \<and>
             (\<forall>L < num_layer m. \<forall>i < length ptrs.
                kv_list mi ! (L * (length ptrs * 2) + i) =
                  ptrs ! i + L * (llama_block_size m div num_layer m) \<and>
                kv_list mi ! (L * (length ptrs * 2) + length ptrs + i) =
                  ptrs ! i + L * (llama_block_size m div num_layer m) +
                  (llama_block_size m div num_layer m) div 2)"
proof -
  from assms(5) ContextDecode_ok [OF assms(1,2)] Decode_ok [OF assms(1,2)]
  obtain mi where run: "run = Inr mi"
    and shape: "kv_list_shape mi = (num_layer m, length ptrs * 2)"
    and data: "kv_list mi = kv_list_layout (num_layer m) (llama_block_size m) ptrs"
    unfolding assms(4) by fastforce
  have sw: "L * llama_block_size m div num_layer m = L * (llama_block_size m div num_layer m)"
    for L
    by (rule div_mult_swap [OF assms(3), symmetric])
  have len: "length (kv_list mi) = num_layer m * (length ptrs * 2)"
    by (simp add: data length_kv_list_layout)
  have spec: "kv_list mi = kv_list_as_specified (num_layer m) (llama_block_size m) ptrs"
    by (simp add: data kv_list_layout_divisible [OF assms(3)])
  have "\<forall>L < num_layer m. \<forall>i < length ptrs.
                kv_list mi ! (L * (length ptrs * 2) + i) =
                  ptrs ! i + L * llama_block_size m div num_layer m \<and>
                kv_list mi ! (L * (length ptrs * 2) + length ptrs + i) =
                  ptrs ! i + L * llama_block_size m div num_layer m +
                  llama_block_size m div num_layer m div 2"
    unfolding data using kv_list_layout_nth by blast
  then have nth: "\<forall>L < num_layer m. \<forall>i < length ptrs.
                kv_list mi ! (L * (length ptrs * 2) + i) =
                  ptrs ! i + L * (llama_block_size m div num_layer m) \<and>
                kv_list mi ! (L * (length ptrs * 2) + length ptrs + i) =
                  ptrs ! i + L * (llama_block_size m div num_layer m) +
                  (llama_block_size m div num_layer m) div 2"
    unfolding sw .
  from run shape len spec nth show ?thesis
    by simp
qed

theorem step_driver_kv_list_witness:
  "length [forward_request [1, 2, 3] [4096], forward_request [7, 8] [8192, 12288]]
     \<le> llama_max_batch_size two_layer_llama \<and>
   list_all (\<lambda>r. rank two_layer_llama < length (kv_cache_ptrs r))
     [forward_request [1, 2, 3] [4096], forward_request [7, 8] [8192, 12288]] \<and>
   num_layer two_layer_llama dvd llama_block_size two_layer_llama \<and>
   map_sum (\<lambda>e. e) kv_list
     (ContextDecode two_layer_llama
        [forward_request [1, 2, 3] [4096], forward_request [7, 8] [8192, 12288]]) =
     Inr [4096, 8192, 12288, 4352, 8448, 12544,
          4608, 8704, 12800, 4864, 8960, 13056]"
proof -
  let ?reqs = "[forward_request [1, 2, 3] [4096], forward_request [7, 8] [8192, 12288]]"
  have a: "length ?reqs \<le> llama_max_batch_size two_layer_llama"
    by (simp add: two_layer_llama_def)
  have b: "\<forall>r \<in> set ?reqs. rank two_layer_llama < length (kv_cache_ptrs r)"
    by (simp add: two_layer_llama_def forward_request_def)
  have p: "[4096, 8192, 12288] = concat (map (\<lambda>r. kv_cache_ptrs r ! rank two_layer_llama) ?reqs)"
    by (simp add: two_layer_llama_def forward_request_def)
  have dv: "num_layer two_layer_llama dvd llama_block_size two_layer_llama"
    by (simp add: two_layer_llama_def)
  have r: "ContextDecode two_layer_llama ?reqs = ContextDecode two_layer_llama ?reqs \<or>
        (ContextDecode two_layer_llama ?reqs = Decode two_layer_llama ?reqs \<and>
         (\<forall>r \<in> set ?reqs. output_tokens r \<noteq> []))"
    by simp
  from step_driver_kv_list [OF a b dv p r]
  have "map_sum (\<lambda>e. e) kv_list (ContextDecode two_layer_llama ?reqs) =
        Inr (kv_list_as_specified 2 1024 [4096, 8192, 12288])"
    by (auto simp: two_layer_llama_def split: sum.splits)
  also have "kv_list_as_specified 2 1024 [4096, 8192, 12288] =
     [4096, 8192, 12288, 4352, 8448, 12544, 4608, 8704, 12800, 4864, 8960, 13056]"
    by (simp add: kv_list_as_specified_def upt_rec)
  finally show ?thesis using a b dv by simp
qed

section \<open>Properties of the block manager\<close>

text \<open>
  With 1024 bytes of device memory, a ratio of one half and blocks of 16 bytes, the
  ratio branch leaves 1024 * 0.5 / 8 = 64 for device blocks, that is 4 blocks, where
  1024 * 0.5 / 16 is 32: the quotient by \<^verbatim>\<open>alignment_bytes\<close> is not multiplied back, as
  it is in the other branch.
\<close>

lemma alignment_division_example:
  "device_block_memory_size exact_ops (sizing_config (1 / 2) 2 16) 900 1024 = 64 \<and>
   CalculateBlockNumber exact_ops (sizing_config (1 / 2) 2 16) (Inr (900, 1024)) (Inr (4096, 8192)) =
     BlockNumbers 4 8 \<and>
   \<lfloor>(1024 * (1 / 2 :: rat)) / 16\<rfloor> = 32"
  by (simp add: CalculateBlockNumber_def exact_ops_def sizing_config_def
      device_block_memory_size_def Let_def)

text \<open>
  C2 (as amended). For every configuration with \<^verbatim>\<open>block_device_memory_ratio >= 0\<close>
  that passes the three ratio checks and has a non-zero block size,
  \<^verbatim>\<open>CalculateBlockNumber\<close> takes \<^verbatim>\<open>device_blocks_num\<close> to be the bytes set aside for
  device blocks divided by the block size and \<^verbatim>\<open>host_block_num\<close> to be
  \<^verbatim>\<open>device_blocks_num * block_host_memory_factor\<close> converted back to \<^verbatim>\<open>size_t\<close>; it
  fails its host-memory check exactly when \<^verbatim>\<open>host_block_num * block_size\<close> is greater
  than or equal to the free host memory, and returns the two numbers otherwise.
\<close>

theorem CalculateBlockNumber_block_ratio:
  assumes "fle F (fzero F) (block_device_memory_ratio cfg)"
    and "fless F (fzero F) (reserved_device_memory_ratio cfg)"
    and "fless F (fone F) (lora_host_memory_factor cfg)"
    and "fless F (fone F) (block_host_memory_factor cfg)"
    and "block_size (device_allocator_config cfg) \<noteq> 0"
    and "device_blocks_num =
           device_block_memory_size F cfg device_free device_total
             div block_size (device_allocator_config cfg)"
    and "host_block_num =
           to_size F (fmul F (of_size F device_blocks_num) (block_host_memory_factor cfg))"
  shows "CalculateBlockNumber F cfg (Inr (device_free, device_total)) (Inr (host_free, host_total)) =
           (if host_free \<le> host_block_num * block_size (host_allocator_config cfg)
            then Aborted (CheckFailed ''Not enough host free memory'')
            else BlockNumbers device_blocks_num host_block_num)"
  using assms by (auto simp: CalculateBlockNumber_def Let_def)

theorem CalculateBlockNumber_block_ratio_witness:
  "CalculateBlockNumber exact_ops (sizing_config (1 / 2) 2 16) (Inr (900, 1024)) (Inr (129, 8192)) =
     BlockNumbers 4 8 \<and>
   CalculateBlockNumber exact_ops (sizing_config (1 / 2) 2 16) (Inr (900, 1024)) (Inr (128, 8192)) =
     Aborted (CheckFailed ''Not enough host free memory'')"
proof -
  let ?cfg = "sizing_config (1 / 2) 2 16"
  have a: "fle exact_ops (fzero exact_ops) (block_device_memory_ratio ?cfg)"
    and b: "fless exact_ops (fzero exact_ops) (reserved_device_memory_ratio ?cfg)"
    and c: "fless exact_ops (fone exact_ops) (lora_host_memory_factor ?cfg)"
    and d: "fless exact_ops (fone exact_ops) (block_host_memory_factor ?cfg)"
    and e: "block_size (device_allocator_config ?cfg) \<noteq> 0"
    by (simp_all add: exact_ops_def sizing_config_def)
  have f: "(4 :: size_t) =
           device_block_memory_size exact_ops ?cfg 900 1024
             div block_size (device_allocator_config ?cfg)"
    by (simp add: exact_ops_def sizing_config_def device_block_memory_size_def)
  have g: "(8 :: size_t) =
           to_size exact_ops (fmul exact_ops (of_size exact_ops 4) (block_host_memory_factor ?cfg))"
    by (simp add: exact_ops_def sizing_config_def)
  have h: "block_size (host_allocator_config ?cfg) = 16"
    by (simp add: sizing_config_def)
  show ?thesis
    using CalculateBlockNumber_block_ratio [OF a b c d e f g, of 129 8192]
          CalculateBlockNumber_block_ratio [OF a b c d e f g, of 128 8192]
    by (simp add: h)
qed

text \<open>
  Two runs that end in a failed check although the host requirement does not exceed
  the free host memory. In the first no block fits (64 * 0.5 is less than the block
  size), so the requirement is 0 bytes, and it is refused against 0 free bytes: the
  check wants strictly less. In the second \<^verbatim>\<open>block_host_memory_factor\<close> is 1.0 and
  the configuration check fails before any number is computed.
\<close>

theorem CalculateBlockNumber_fails_without_exceeding:
  "\<lfloor>(64 * (1 / 2 :: rat)) / 64\<rfloor> = 0 \<and>
   \<not> (0 :: size_t) < 0 * 64 \<and>
   CalculateBlockNumber exact_ops (sizing_config (1 / 2) 2 64) (Inr (60, 64)) (Inr (0, 8192)) =
     Aborted (CheckFailed ''Not enough host free memory'') \<and>
   CalculateBlockNumber exact_ops (sizing_config (1 / 2) 1 16) (Inr (900, 1024)) (Inr (4096, 8192)) =
     Aborted (CheckFailed ''block_host_memory_factor should large than 1.0'')"
proof -
  have "\<lfloor>(64 * (1 / 2 :: rat)) / 64\<rfloor> = 0"
    by (simp add: floor_eq_iff)
  moreover have "\<not> (0 :: size_t) < 0 * 64"
    by simp
  moreover have
    "CalculateBlockNumber exact_ops (sizing_config (1 / 2) 2 64) (Inr (60, 64)) (Inr (0, 8192)) =
       Aborted (CheckFailed ''Not enough host free memory'')"
    by (simp add: CalculateBlockNumber_def exact_ops_def sizing_config_def
        device_block_memory_size_def Let_def)
  moreover have
    "CalculateBlockNumber exact_ops (sizing_config (1 / 2) 1 16) (Inr (900, 1024)) (Inr (4096, 8192)) =
       Aborted (CheckFailed ''block_host_memory_factor should large than 1.0'')"
    by (simp add: CalculateBlockNumber_def exact_ops_def sizing_config_def)
  ultimately show ?thesis by blast
qed

lemma AllocateBlocks_length:
  "AllocateBlocks n a = Inr (ids, a') \<Longrightarrow> length ids = n"
  by (auto simp: AllocateBlocks_def Let_def split: if_splits)

lemma GetBlockPtrs_length:
  "GetBlockPtrs ids a = Inr addrs \<Longrightarrow> length addrs = length ids"
  by (induction ids arbitrary: addrs) (auto split: option.splits sum.splits)

lemma SwapOut_allocation_fails:
  "AllocateBlocks (length device_blocks) (host_allocator bm) = Inl st \<Longrightarrow>
   SwapOut bm device_blocks hb0 = (Returned st, hb0, bm)"
  by (simp add: SwapOut_def)

lemma SwapOut_concurrent:
  assumes "AllocateBlocks (length device_blocks) (host_allocator bm) = Inr (host_blocks, host')"
    and "GetBlockPtrs host_blocks host' = Inr host_addrs"
    and "current_device bm < length (device_allocators bm)"
    and "GetBlockPtrs device_blocks (device_allocators bm ! current_device bm) = Inr device_addrs"
    and "\<not> run_serially bm"
  shows "SwapOut bm device_blocks hb0 =
     (Thrown (RuntimeError ''Context decode and decode run in concurrently is unimplemented.''),
      host_blocks,
      bm\<lparr>host_allocator := host', event_log := event_log bm @ [HostAllocate host_blocks]\<rparr>)"
  using assms by (simp add: SwapOut_def Let_def)

lemma SwapOut_serial:
  assumes "AllocateBlocks (length device_blocks) (host_allocator bm) = Inr (host_blocks, host')"
    and "GetBlockPtrs host_blocks host' = Inr host_addrs"
    and "current_device bm < length (device_allocators bm)"
    and "GetBlockPtrs device_blocks (device_allocators bm ! current_device bm) = Inr device_addrs"
    and "run_serially bm"
    and "current_device bm < length (compute_streams bm)"
  shows "SwapOut bm device_blocks hb0 =
     (Returned Status_default,
      host_blocks,
      bm\<lparr>host_allocator := host',
         device_allocators := (device_allocators bm)
           [current_device bm :=
              snd (FreeBlocks device_blocks (device_allocators bm ! current_device bm))],
         event_log := event_log bm @ [HostAllocate host_blocks] @
                copy_events host_addrs device_addrs (length device_blocks) (bm_block_size bm)
                  (compute_streams bm ! current_device bm) @
                [DeviceFree device_blocks]\<rparr>)"
  using assms by (simp add: SwapOut_def Let_def case_prod_beta)

text \<open>
  C4 (as amended). For every call of \<^verbatim>\<open>SwapOut\<close> on a valid current device whose host
  allocation and two pointer look-ups succeed: it allocates exactly as many host
  blocks as there are device blocks. Run serially, it then enqueues one device-to-host
  copy per block on the compute stream of the current device, frees the device blocks
  after the last copy, and returns success. Run concurrently, it stops with the
  runtime error of the unimplemented path: nothing is copied, no block is freed, and
  the host blocks it has allocated stay allocated.
\<close>

theorem SwapOut_steps:
  assumes "AllocateBlocks (length device_blocks) (host_allocator bm) = Inr (host_blocks, host')"
    and "GetBlockPtrs host_blocks host' = Inr host_addrs"
    and "current_device bm < length (device_allocators bm)"
    and "GetBlockPtrs device_blocks (device_allocators bm ! current_device bm) = Inr device_addrs"
    and "current_device bm < length (compute_streams bm)"
  shows "length host_blocks = length device_blocks \<and>
         length host_addrs = length device_blocks \<and>
         length device_addrs = length device_blocks \<and>
         (run_serially bm \<longrightarrow>
            SwapOut bm device_blocks hb0 =
              (Returned Status_default, host_blocks,
               bm\<lparr>host_allocator := host',
                  device_allocators := (device_allocators bm)
                    [current_device bm :=
                       snd (FreeBlocks device_blocks (device_allocators bm ! current_device bm))],
                  event_log := event_log bm @ [HostAllocate host_blocks] @
                         copy_events host_addrs device_addrs (length device_blocks)
                           (bm_block_size bm) (compute_streams bm ! current_device bm) @
                         [DeviceFree device_blocks]\<rparr>)) \<and>
         (\<not> run_serially bm \<longrightarrow>
            SwapOut bm device_blocks hb0 =
              (Thrown (RuntimeError
                 ''Context decode and decode run in concurrently is unimplemented.''),
               host_blocks,
               bm\<lparr>host_allocator := host', event_log := event_log bm @ [HostAllocate host_blocks]\<rparr>))"
proof -
  have n: "length host_blocks = length device_blocks"
    by (rule AllocateBlocks_length [OF assms(1)])
  have "length host_addrs = length host_blocks"
    by (rule GetBlockPtrs_length [OF assms(2)])
  with n have h: "length host_addrs = length device_blocks" by simp
  have d: "length device_addrs = length device_blocks"
    by (rule GetBlockPtrs_length [OF assms(4)])
  from n h d SwapOut_serial [OF assms(1,2,3,4) _ assms(5)] SwapOut_concurrent [OF assms(1,2,3,4)]
  show ?thesis by blast
qed

theorem SwapOut_steps_witness:
  "fst (SwapOut (swap_manager True [0, 1, 2]) [0, 1] []) = Returned Status_default \<and>
   fst (snd (SwapOut (swap_manager True [0, 1, 2]) [0, 1] [])) = [0, 1] \<and>
   event_log (snd (snd (SwapOut (swap_manager True [0, 1, 2]) [0, 1] []))) =
     [HostAllocate [0, 1],
      MemcpyDeviceToHost 1000000 0 1024 70,
      MemcpyDeviceToHost 1001024 1024 1024 70,
      DeviceFree [0, 1]] \<and>
   fst (SwapOut (swap_manager False [0, 1, 2]) [0, 1] []) =
     Thrown (RuntimeError ''Context decode and decode run in concurrently is unimplemented.'') \<and>
   event_log (snd (snd (SwapOut (swap_manager False [0, 1, 2]) [0, 1] []))) = [HostAllocate [0, 1]] \<and>
   device_allocators (snd (snd (SwapOut (swap_manager False [0, 1, 2]) [0, 1] []))) =
     device_allocators (swap_manager False [0, 1, 2])"
proof -
  let ?host' = "\<lparr>free_map = [(2, 1002048)], used_map = [(0, 1000000, 1), (1, 1001024, 1)]\<rparr>"
  have a: "AllocateBlocks (length [0, 1 :: nat]) (host_allocator (swap_manager s [0, 1, 2])) =
             Inr ([0, 1], ?host')" for s
    by (simp add: AllocateBlocks_def swap_manager_def pool_def)
  have b: "GetBlockPtrs [0, 1] ?host' = Inr [1000000, 1001024]"
    by (simp add: block_address_def)
  have c: "current_device (swap_manager s [0, 1, 2]) < length (device_allocators (swap_manager s [0, 1, 2]))"
    for s by (simp add: swap_manager_def)
  have d: "GetBlockPtrs [0, 1]
             (device_allocators (swap_manager s [0, 1, 2]) ! current_device (swap_manager s [0, 1, 2])) =
           Inr [0, 1024]" for s
    by (simp add: swap_manager_def pool_def block_address_def)
  have e: "current_device (swap_manager s [0, 1, 2]) < length (compute_streams (swap_manager s [0, 1, 2]))"
    for s by (simp add: swap_manager_def)
  have t: "run_serially (swap_manager True [0, 1, 2])" and f: "\<not> run_serially (swap_manager False [0, 1, 2])"
    by (simp_all add: swap_manager_def)
  have ce: "copy_events [1000000, 1001024] [0, 1024] (length [0, 1 :: nat])
              (bm_block_size (swap_manager True [0, 1, 2]))
              (compute_streams (swap_manager True [0, 1, 2]) ! current_device (swap_manager True [0, 1, 2])) =
            [MemcpyDeviceToHost 1000000 0 1024 70, MemcpyDeviceToHost 1001024 1024 1024 70]"
    by (simp add: copy_events_def swap_manager_def upt_rec)
  have lg: "event_log (swap_manager s [0, 1, 2]) = []" for s
    by (simp add: swap_manager_def)
  from SwapOut_steps [OF a b c d e, of True "[]"] t
  have s1: "SwapOut (swap_manager True [0, 1, 2]) [0, 1] [] =
              (Returned Status_default, [0, 1],
               (swap_manager True [0, 1, 2])\<lparr>host_allocator := ?host',
                  device_allocators := (device_allocators (swap_manager True [0, 1, 2]))
                    [current_device (swap_manager True [0, 1, 2]) :=
                       snd (FreeBlocks [0, 1] (device_allocators (swap_manager True [0, 1, 2]) !
                              current_device (swap_manager True [0, 1, 2])))],
                  event_log := [HostAllocate [0, 1],
                          MemcpyDeviceToHost 1000000 0 1024 70,
                          MemcpyDeviceToHost 1001024 1024 1024 70,
                          DeviceFree [0, 1]]\<rparr>)"
    by (simp only: ce lg append_Nil append_Cons simp_thms)
  from SwapOut_steps [OF a b c d e, of False "[]"] f
  have s2: "SwapOut (swap_manager False [0, 1, 2]) [0, 1] [] =
              (Thrown (RuntimeError
                 ''Context decode and decode run in concurrently is unimplemented.''),
               [0, 1],
               (swap_manager False [0, 1, 2])\<lparr>host_allocator := ?host', event_log := [HostAllocate [0, 1]]\<rparr>)"
    by (simp only: lg append_Nil simp_thms)
  show ?thesis
    unfolding s1 s2 by simp
qed

text \<open>
  One free host block for two device blocks. Run concurrently, \<^verbatim>\<open>SwapOut\<close> returns the
  allocator's status, not the error of the unimplemented path; run serially, it
  returns the same status, and no host block is allocated, nothing is copied and
  nothing is freed.
\<close>

theorem SwapOut_host_pool_exhausted:
  "fst (SwapOut (swap_manager False [0]) [0, 1] []) =
     Returned (Status RET_OUT_OF_MEMORY ''No more free blocks.'') \<and>
   snd (snd (SwapOut (swap_manager False [0]) [0, 1] [])) = swap_manager False [0] \<and>
   fst (SwapOut (swap_manager True [0]) [0, 1] []) =
     Returned (Status RET_OUT_OF_MEMORY ''No more free blocks.'') \<and>
   fst (snd (SwapOut (swap_manager True [0]) [0, 1] [])) = [] \<and>
   event_log (snd (snd (SwapOut (swap_manager True [0]) [0, 1] []))) = []"
proof -
  have "AllocateBlocks (length [0, 1 :: nat]) (host_allocator (swap_manager s [0])) =
          Inl (Status RET_OUT_OF_MEMORY ''No more free blocks.'')" for s
    by (simp add: AllocateBlocks_def swap_manager_def pool_def)
  then have "SwapOut (swap_manager s [0]) [0, 1] [] =
          (Returned (Status RET_OUT_OF_MEMORY ''No more free blocks.''), [], swap_manager s [0])" for s
    by (rule SwapOut_allocation_fails)
  then show ?thesis
    by (simp add: swap_manager_def)
qed

end
